theory Spec2Isabelle
  imports Complex_Main "HOL-Library.Sublist" "HOL-Library.AList"
begin

section \<open>Python values used by the blog pipeline\<close>

text \<open>
  The program is \<^verbatim>\<open>src/main.py\<close>: the classes \<^verbatim>\<open>AIContentGenerator\<close> and
  \<^verbatim>\<open>AdvancedSEOBlogPipeline\<close>. Every method that a property below talks about is
  translated into a HOL function of the same name.

  Conventions of the translation.
  \<^item> A Python \<^verbatim>\<open>str\<close> is a \<^typ>\<open>string\<close>, read as a sequence of code points below
    256. \<^verbatim>\<open>split\<close> knows all the white space among them. \<^verbatim>\<open>lower\<close>,
    \<^verbatim>\<open>title\<close> and the regular expression classes are those of ASCII; Python also
    changes the case of the letters from 192 to 254 and takes them for word characters.
  \<^item> A Python \<^verbatim>\<open>float\<close> is kept as the rational number it denotes
    (\<^typ>\<open>rat\<close>). In \<^verbatim>\<open>_calculate_readability\<close> every operation on floats rounds
    its exact result to the nearest binary64 number (\<open>fl\<close>), as the machine does. In the
    keyword scorer and in the SEO score the arithmetic is exact: what is stated of them
    (bounds, monotonicity) does not depend on the rounding.
  \<^item> An exception is a value of \<open>py_error\<close>; a method that can raise returns
    \<open>py_error + 'a\<close>.
  \<^item> The built-in \<^verbatim>\<open>hash\<close> of a string is seeded per process by the runtime, and the
    iteration order of a \<^verbatim>\<open>set\<close> of strings follows it. Neither is code of this
    program: both are parameters (\<open>hash\<close>, \<open>set_order\<close>) of the functions that use them.
\<close>

datatype py_error = IndexError | ZeroDivisionError | StopIteration

subsection \<open>Strings\<close>

definition ord :: "char \<Rightarrow> nat" where
  "ord c = of_char c"

definition is_upper :: "char \<Rightarrow> bool" where
  "is_upper c = (65 \<le> ord c \<and> ord c \<le> 90)"

definition is_lower :: "char \<Rightarrow> bool" where
  "is_lower c = (97 \<le> ord c \<and> ord c \<le> 122)"

definition is_digit :: "char \<Rightarrow> bool" where
  "is_digit c = (48 \<le> ord c \<and> ord c \<le> 57)"

definition is_alpha :: "char \<Rightarrow> bool" where
  "is_alpha c = (is_upper c \<or> is_lower c)"

text \<open>\<^verbatim>\<open>str.isspace\<close> below 256: tab, line feed, vertical tab, form feed, carriage
  return, the four separators 28..31, the space, next line (133) and the no-break space
  (160).\<close>

definition is_space :: "char \<Rightarrow> bool" where
  "is_space c = ((9 \<le> ord c \<and> ord c \<le> 13) \<or> (28 \<le> ord c \<and> ord c \<le> 32) \<or>
                 ord c = 133 \<or> ord c = 160)"

definition lower_char :: "char \<Rightarrow> char" where
  "lower_char c = (if is_upper c then char_of (ord c + 32) else c)"

definition upper_char :: "char \<Rightarrow> char" where
  "upper_char c = (if is_lower c then char_of (ord c - 32) else c)"

text \<open>\<^verbatim>\<open>s.lower()\<close>\<close>

definition lower :: "string \<Rightarrow> string" where
  "lower s = map lower_char s"

text \<open>\<^verbatim>\<open>s.split()\<close>: the maximal runs of characters that are not spaces. \<open>cur\<close> is the
  run being read.\<close>

fun split_acc :: "string \<Rightarrow> string \<Rightarrow> string list" where
  "split_acc cur [] = (if cur = [] then [] else [cur])"
| "split_acc cur (c # cs) =
     (if is_space c then (if cur = [] then split_acc [] cs else cur # split_acc [] cs)
      else split_acc (cur @ [c]) cs)"

definition split :: "string \<Rightarrow> string list" where
  "split s = split_acc [] s"

text \<open>\<^verbatim>\<open>sub in s\<close>: \<open>sub\<close> occurs in \<open>s\<close> as a contiguous piece.\<close>

fun contains :: "string \<Rightarrow> string \<Rightarrow> bool" where
  "contains sub [] = (sub = [])"
| "contains sub (c # cs) = (prefix sub (c # cs) \<or> contains sub cs)"

text \<open>\<^verbatim>\<open>s.count(c)\<close> for a one-character \<open>c\<close>.\<close>

definition count_char :: "char \<Rightarrow> string \<Rightarrow> nat" where
  "count_char c s = length (filter (\<lambda>d. d = c) s)"

text \<open>\<^verbatim>\<open>s.replace(old, new)\<close>: the occurrences of \<open>old\<close> are replaced from the left,
  without overlap (with an empty \<open>old\<close>, \<open>new\<close> goes around every character).
  \<^verbatim>\<open>sep.join(xs)\<close> and \<^verbatim>\<open>s.strip()\<close>.\<close>

function replace :: "string \<Rightarrow> string \<Rightarrow> string \<Rightarrow> string" where
  "replace old new [] = (if old = [] then new else [])"
| "replace old new (c # cs) =
     (if old = [] then new @ c # replace old new cs
      else if prefix old (c # cs) then new @ replace old new (drop (length old) (c # cs))
      else c # replace old new cs)"
  by pat_completeness auto
termination
  by (relation "measure (\<lambda>(old, new, s). length s)") auto

fun join :: "string \<Rightarrow> string list \<Rightarrow> string" where
  "join sep [] = []"
| "join sep [x] = x"
| "join sep (x # y # ys) = x @ sep @ join sep (y # ys)"

definition strip :: "string \<Rightarrow> string" where
  "strip s = rev (dropWhile is_space (rev (dropWhile is_space s)))"

subsection \<open>Numbers\<close>

text \<open>\<^verbatim>\<open>round(x, ndigits)\<close> rounds to the nearest multiple of \<open>10 ^ (- ndigits)\<close>, a tie
  going to the even one. \<^verbatim>\<open>int(x)\<close> cuts towards zero.\<close>

definition round_half_even :: "rat \<Rightarrow> int" where
  "round_half_even x =
     (let f = \<lfloor>x\<rfloor>; r = x - of_int f
      in if r < 1 / 2 then f else if 1 / 2 < r then f + 1 else if even f then f else f + 1)"

definition py_round :: "rat \<Rightarrow> nat \<Rightarrow> rat" where
  "py_round x ndigits = of_int (round_half_even (x * 10 ^ ndigits)) / 10 ^ ndigits"

definition py_int :: "rat \<Rightarrow> int" where
  "py_int x = (if 0 \<le> x then \<lfloor>x\<rfloor> else \<lceil>x\<rceil>)"

text \<open>Binary64 arithmetic. A float other than 0 is \<open>m * 2 ^ (e - 52)\<close> with an integer
  \<open>m\<close> of 53 bits, where \<open>2 ^ e\<close> is the largest power of two that is at most its
  absolute value; \<open>exponent\<close> finds \<open>e\<close> by halving or doubling. \<open>fl x\<close> is the float
  nearest to \<open>x\<close>, a tie going to the even \<open>m\<close>: the result of every float operation
  whose exact result is \<open>x\<close>, and the value of a decimal literal \<open>x\<close>. The numbers of
  this program are counts of characters and words and their quotients, so the limits of
  the exponent are never reached and \<open>fl\<close> has no overflow.
  \<^verbatim>\<open>round(x, ndigits)\<close> of a float rounds its exact value to \<open>ndigits\<close> decimals, a
  tie to the even digit, and returns the float nearest to that decimal.\<close>

function exp_up :: "rat \<Rightarrow> int" where
  "exp_up x = (if 2 \<le> x then exp_up (x / 2) + 1 else 0)"
  by pat_completeness auto
termination
proof (relation "measure (\<lambda>x. nat \<lfloor>x\<rfloor>)")
  show "wf (measure (\<lambda>x::rat. nat \<lfloor>x\<rfloor>))" by simp
next
  fix x :: rat
  assume x: "2 \<le> x"
  then have "x / 2 \<le> x - 1" by simp
  then have "\<lfloor>x / 2\<rfloor> \<le> \<lfloor>x - 1\<rfloor>" by (rule floor_mono)
  moreover have "2 \<le> \<lfloor>x\<rfloor>" using x by (simp add: le_floor_iff)
  ultimately show "(x / 2, x) \<in> measure (\<lambda>x. nat \<lfloor>x\<rfloor>)" by simp
qed

function exp_down :: "rat \<Rightarrow> int" where
  "exp_down x = (if 0 < x \<and> x < 1 then exp_down (x * 2) - 1 else 0)"
  by pat_completeness auto
termination
proof (relation "measure (\<lambda>x. nat \<lfloor>1 / x\<rfloor>)")
  show "wf (measure (\<lambda>x::rat. nat \<lfloor>1 / x\<rfloor>))" by simp
next
  fix x :: rat
  assume x: "0 < x \<and> x < 1"
  define y where "y = 1 / x"
  have y: "1 < y" using x by (simp add: y_def)
  have half: "1 / (x * 2) = y / 2" by (simp add: y_def)
  have "\<lfloor>y / 2\<rfloor> < \<lfloor>y\<rfloor>"
  proof (cases "2 \<le> y")
    case True
    then have "y / 2 \<le> y - 1" by simp
    then have "\<lfloor>y / 2\<rfloor> \<le> \<lfloor>y - 1\<rfloor>" by (rule floor_mono)
    then show ?thesis by simp
  next
    case False
    with y have "\<lfloor>y / 2\<rfloor> = 0" by (simp add: floor_eq_iff)
    moreover have "1 \<le> \<lfloor>y\<rfloor>" using y by (simp add: le_floor_iff)
    ultimately show ?thesis by simp
  qed
  moreover have "0 < \<lfloor>y\<rfloor>" using y by (simp add: less_floor_iff)
  ultimately show "(x * 2, x) \<in> measure (\<lambda>x. nat \<lfloor>1 / x\<rfloor>)"
    by (simp add: half y_def [symmetric])
qed

definition exponent :: "rat \<Rightarrow> int" where
  "exponent x = (if 1 \<le> \<bar>x\<bar> then exp_up \<bar>x\<bar> else exp_down \<bar>x\<bar>)"

definition fl :: "rat \<Rightarrow> rat" where
  "fl x = (if x = 0 then 0
           else let u = 2 powi (exponent x - 52) in of_int (round_half_even (x / u)) * u)"

definition round_float :: "rat \<Rightarrow> nat \<Rightarrow> rat" where
  "round_float x ndigits = fl (py_round x ndigits)"

section \<open>Keyword scorer\<close>

record keyword_info =
  keyword :: string
  volume :: int
  difficulty :: int
  relevance :: int
  seo_score :: rat
  word_count :: nat

text \<open>\<^verbatim>\<open>_estimate_search_volume\<close>\<close>

definition estimate_search_volume :: "string \<Rightarrow> int" where
  "estimate_search_volume kw =
     (let base_score = 50;
          base_score = (if contains ''best'' kw \<or> contains ''top'' kw
                        then base_score + 20 else base_score);
          base_score = (if contains ''2025'' kw \<or> contains ''new'' kw
                        then base_score + 15 else base_score);
          base_score = (if length (split kw) = 2 then base_score + 10 else base_score)
      in min base_score 100)"

text \<open>\<^verbatim>\<open>_estimate_difficulty\<close>\<close>

definition estimate_difficulty :: "string \<Rightarrow> int" where
  "estimate_difficulty kw =
     (let base_difficulty = 40;
          wc = length (split kw);
          base_difficulty = (if wc = 1 then base_difficulty + 30
                             else if wc = 2 then base_difficulty + 10
                             else base_difficulty)
      in min base_difficulty 100)"

text \<open>\<^verbatim>\<open>_calculate_relevance\<close>; the keyword itself is not read.\<close>

definition calculate_relevance :: "string \<Rightarrow> nat \<Rightarrow> int" where
  "calculate_relevance kw wc =
     (let relevance = 70;
          relevance = (if 3 \<le> wc then relevance + 20 else relevance)
      in min relevance 100)"

text \<open>The body of the loop of \<^verbatim>\<open>_analyze_keywords\<close>, and the loop.\<close>

definition combined_score :: "int \<Rightarrow> int \<Rightarrow> int \<Rightarrow> rat" where
  "combined_score volume_score difficulty_score relevance_score =
     of_int volume_score * (4 / 10) + of_int (100 - difficulty_score) * (3 / 10)
       + of_int relevance_score * (3 / 10)"

definition analyze_keyword :: "string \<Rightarrow> keyword_info" where
  "analyze_keyword kw =
     (let wc = length (split kw);
          volume_score = estimate_search_volume kw;
          difficulty_score = estimate_difficulty kw;
          relevance_score = calculate_relevance kw wc;
          score = combined_score volume_score difficulty_score relevance_score
      in \<lparr> keyword = kw, volume = volume_score * 100, difficulty = difficulty_score,
           relevance = relevance_score, seo_score = py_round score 2, word_count = wc \<rparr>)"

definition analyze_keywords :: "string list \<Rightarrow> keyword_info list" where
  "analyze_keywords kws = map analyze_keyword kws"

section \<open>Metadata derivers\<close>

definition is_slug_char :: "char \<Rightarrow> bool" where
  "is_slug_char c = (is_lower c \<or> is_digit c)"

text \<open>\<^verbatim>\<open>re.sub(r'[^a-z0-9]+', '-', s)\<close>: every maximal run of characters outside
  \<^verbatim>\<open>[a-z0-9]\<close> becomes one hyphen.\<close>

function re_sub_non_alnum :: "string \<Rightarrow> string" where
  "re_sub_non_alnum [] = []"
| "re_sub_non_alnum (c # cs) =
     (if is_slug_char c then c # re_sub_non_alnum cs
      else CHR ''-'' # re_sub_non_alnum (dropWhile (\<lambda>d. \<not> is_slug_char d) cs))"
  by pat_completeness auto
termination
  by (relation "measure length") (auto simp: le_imp_less_Suc length_dropWhile_le)

text \<open>\<^verbatim>\<open>s.strip(c)\<close> for a one-character \<open>c\<close>.\<close>

definition strip_char :: "char \<Rightarrow> string \<Rightarrow> string" where
  "strip_char c s = rev (dropWhile (\<lambda>d. d = c) (rev (dropWhile (\<lambda>d. d = c) s)))"

text \<open>\<^verbatim>\<open>_generate_slug\<close>\<close>

definition generate_slug :: "string \<Rightarrow> string" where
  "generate_slug t =
     (let slug = lower t;
          slug = re_sub_non_alnum slug;
          slug = strip_char CHR ''-'' slug
      in take 60 slug)"

section \<open>Post scorer\<close>

definition cta_words :: "string list" where
  "cta_words = [''discover'', ''check'', ''buy'', ''shop'', ''get'', ''try'', ''order'']"

text \<open>The two generator expressions of \<^verbatim>\<open>_calculate_blog_seo_score\<close>:
  \<^verbatim>\<open>sum(1 for kw in keywords if kw.lower() in content_lower)\<close> and
  \<^verbatim>\<open>any(word in content_lower for word in cta_words)\<close>.\<close>

definition keywords_found :: "string \<Rightarrow> string list \<Rightarrow> nat" where
  "keywords_found content_lower kws =
     length (filter (\<lambda>kw. contains (lower kw) content_lower) kws)"

definition has_cta_word :: "string \<Rightarrow> bool" where
  "has_cta_word content_lower = list_ex (\<lambda>w. contains w content_lower) cta_words"

text \<open>\<^verbatim>\<open>_calculate_blog_seo_score\<close>. The division by \<^verbatim>\<open>len(keywords)\<close> raises
  \<^verbatim>\<open>ZeroDivisionError\<close> on an empty list, before anything else is looked at.\<close>

definition calculate_blog_seo_score :: "string \<Rightarrow> string list \<Rightarrow> py_error + int" where
  "calculate_blog_seo_score content kws =
     (let score = (0::rat);
          content_lower = lower content;
          found = keywords_found content_lower kws
      in if length kws = 0 then Inl ZeroDivisionError
         else
           let score = score + (of_nat found / of_nat (length kws)) * 40;
               wc = length (split content);
               score = (if 150 \<le> wc \<and> wc \<le> 200 then score + 20
                        else if 140 \<le> wc \<and> wc \<le> 210 then score + 15
                        else score);
               score = (if prefix ''#'' content then score + 20 else score);
               score = (if has_cta_word content_lower then score + 20 else score)
           in Inr (min (py_int score) 100))"

text \<open>\<^verbatim>\<open>_count_syllables\<close>: the loop over the characters of the word, carrying
  \<^verbatim>\<open>previous_was_vowel\<close> and \<^verbatim>\<open>count\<close>, and the two corrections after it.\<close>

fun count_vowel_groups :: "string \<Rightarrow> bool \<Rightarrow> int \<Rightarrow> int" where
  "count_vowel_groups [] previous_was_vowel count = count"
| "count_vowel_groups (c # cs) previous_was_vowel count =
     (let is_vowel = (c \<in> set ''aeiouy'')
      in count_vowel_groups cs is_vowel
           (if is_vowel \<and> \<not> previous_was_vowel then count + 1 else count))"

definition count_syllables :: "string \<Rightarrow> int" where
  "count_syllables w =
     (let word = lower w;
          count = count_vowel_groups word False 0;
          count = (if suffix ''e'' word then count - 1 else count);
          count = (if count = 0 then 1 else count)
      in count)"

text \<open>\<^verbatim>\<open>_calculate_readability\<close>. The three counts are integers; \<^verbatim>\<open>/\<close> on two
  integers gives the float nearest to the quotient. \<open>flesch\<close> is the expression
  \<^verbatim>\<open>206.835 - 1.015 * (words / sentences) - 84.6 * (syllables / words)\<close>, evaluated
  from the left.\<close>

definition flesch :: "nat \<Rightarrow> nat \<Rightarrow> int \<Rightarrow> rat" where
  "flesch words sentences syllables =
     fl (fl (fl (206835 / 1000) - fl (fl (1015 / 1000) * fl (of_nat words / of_nat sentences)))
           - fl (fl (846 / 10) * fl (of_int syllables / of_nat words)))"

definition calculate_readability :: "string \<Rightarrow> rat" where
  "calculate_readability content =
     (let sentences = count_char CHR ''.'' content + count_char CHR ''!'' content
                        + count_char CHR ''?'' content;
          words = length (split content);
          syllables = sum_list (map count_syllables (split content))
      in if sentences = 0 \<or> words = 0 then 50
         else
           let score = flesch words sentences syllables
           in round_float (max 0 (min 100 score)) 1)"

text \<open>The syllable estimate in the words of the specification: the number of transitions
  into a vowel (\<open>a\<close>, \<open>e\<close>, \<open>i\<close>, \<open>o\<close>, \<open>u\<close>, \<open>y\<close>) in the case-folded
  word, less 1 if the word ends in \<open>e\<close>, and at least 1. A transition is a vowel that
  is the first character or follows a character that is not a vowel.\<close>

definition is_vowel :: "char \<Rightarrow> bool" where
  "is_vowel c = (c \<in> set ''aeiouy'')"

definition vowel_transitions :: "string \<Rightarrow> nat" where
  "vowel_transitions w =
     length (filter (\<lambda>(previous, current). current \<and> \<not> previous)
               (zip (False # map is_vowel w) (map is_vowel w)))"

definition syllable_estimate :: "string \<Rightarrow> int" where
  "syllable_estimate w =
     max 1 (int (vowel_transitions (lower w))
            - (if w \<noteq> [] \<and> last (lower w) = CHR ''e'' then 1 else 0))"

section \<open>Content templater\<close>

text \<open>The product dictionary, with the keys the scraper gives it (\<^verbatim>\<open>id\<close> is
  \<open>product_id\<close> here).\<close>

record product =
  product_id :: string
  title :: string
  price :: string
  rating :: string
  reviews :: string
  category :: string
  description :: string
  url :: string
  trend_score :: int

text \<open>\<^verbatim>\<open>xs[i]\<close> for an index that is not negative.\<close>

definition index :: "'a list \<Rightarrow> nat \<Rightarrow> py_error + 'a" where
  "index xs i = (if i < length xs then Inr (xs ! i) else Inl IndexError)"

text \<open>\<^verbatim>\<open>s.title()\<close>: a letter that follows a letter is lowered, any other letter is
  raised, everything else is kept. \<open>previous_is_cased\<close> is the flag of the loop.\<close>

fun title_acc :: "bool \<Rightarrow> string \<Rightarrow> string" where
  "title_acc previous_is_cased [] = []"
| "title_acc previous_is_cased (c # cs) =
     (if is_alpha c
      then (if previous_is_cased then lower_char c else upper_char c) # title_acc True cs
      else c # title_acc False cs)"

definition title_case :: "string \<Rightarrow> string" where
  "title_case s = title_acc False s"

text \<open>The en dash of the first intro template. Its code point 8211 is not below 256; it is
  one character, neither a space nor a letter, and so is the character 150 that stands
  for it here.\<close>

definition en_dash :: string where
  "en_dash = [CHR 0x96]"

definition newline :: char where
  "newline = CHR 0x0A"

text \<open>The lists \<^verbatim>\<open>templates\<close>, \<^verbatim>\<open>intro_templates\<close>, \<^verbatim>\<open>body_parts\<close> and
  \<^verbatim>\<open>ctas\<close> that the four generators build from their arguments.\<close>

definition headline_templates :: "string \<Rightarrow> string \<Rightarrow> string list" where
  "headline_templates product_name main_keyword =
     [''# '' @ title_case main_keyword @ '': Why '' @ product_name @ '' is Taking Over'',
      ''# '' @ product_name @ '' Review: The Ultimate '' @ title_case main_keyword,
      ''# Discover the '' @ title_case main_keyword @ '' Everyone's Talking About'']"

definition intro_templates :: "product \<Rightarrow> string \<Rightarrow> string \<Rightarrow> string list" where
  "intro_templates p k0 k1 =
     [''In the world of '' @ lower (category p) @ '', finding the perfect '' @ k0
        @ '' can feel overwhelming. Enter the '' @ title p @ '' '' @ en_dash
        @ '' a game-changer that's earned an impressive '' @ rating p
        @ ''-star rating from over '' @ reviews p @ '' satisfied customers.'',
      ''Looking for '' @ k0 @ ''? The '' @ title p
        @ '' has quickly become the go-to choice for savvy shoppers. With ''
        @ reviews p @ '' glowing reviews and a stellar '' @ rating p
        @ ''-star rating, it's clear why this '' @ k1 @ '' stands out.'',
      ''When it comes to '' @ k0 @ '', the '' @ title p
        @ '' sets a new standard. This top-rated '' @ lower (category p)
        @ '' item has captured the attention of '' @ reviews p
        @ '' buyers who've given it an outstanding '' @ rating p @ ''-star rating.'']"

definition body_parts :: "product \<Rightarrow> string \<Rightarrow> string \<Rightarrow> string \<Rightarrow> string list" where
  "body_parts p k1 k2 k3 =
     [''What makes this '' @ k1 @ '' special? '' @ description p @ '' ''
        @ ''At just '' @ price p @ '', it delivers exceptional value that's hard to match.'',
      ''Whether you're a first-time buyer or an experienced user looking for '' @ k2 @ '', ''
        @ ''this product consistently exceeds expectations. The combination of quality, ''
        @ ''performance, and affordability makes it the '' @ k3 @ '' for anyone serious ''
        @ ''about their '' @ lower (category p) @ '' needs.'']"

definition ctas :: "string \<Rightarrow> string \<Rightarrow> string list" where
  "ctas product_name kw =
     [''Ready to experience the difference? Discover why the '' @ product_name
        @ '' is the '' @ kw
        @ '' of choice for thousands of satisfied customers. Check it out today!'',
      ''Don't miss out on this exceptional '' @ kw @ ''. Join the community of happy ''
        @ product_name @ '' users and see what all the excitement is about!'',
      ''Transform your experience with the '' @ product_name @ ''. As the leading '' @ kw
        @ '', it's time to see why everyone's making the switch!'']"

text \<open>\<^verbatim>\<open>_generate_headline\<close>, \<^verbatim>\<open>_generate_intro\<close>, \<^verbatim>\<open>_generate_body\<close>,
  \<^verbatim>\<open>_generate_cta\<close>. The list of templates is built before one is picked, so every
  \<^verbatim>\<open>keywords[i]\<close> in it is evaluated whichever template is picked. \<open>hash\<close> is the
  built-in hash of the running process; \<^verbatim>\<open>%\<close> with a positive right-hand side is
  \<open>mod\<close> on \<^typ>\<open>int\<close>.\<close>

definition generate_headline :: "(string \<Rightarrow> int) \<Rightarrow> string \<Rightarrow> string \<Rightarrow> string" where
  "generate_headline hash product_name main_keyword =
     (let templates = headline_templates product_name main_keyword
      in templates ! nat (hash product_name mod int (length templates)))"

definition generate_intro :: "(string \<Rightarrow> int) \<Rightarrow> product \<Rightarrow> string list \<Rightarrow> py_error + string" where
  "generate_intro hash p kws =
     (case index kws 0 of Inl e \<Rightarrow> Inl e | Inr k0 \<Rightarrow>
      case index kws 1 of Inl e \<Rightarrow> Inl e | Inr k1 \<Rightarrow>
        let templates = intro_templates p k0 k1
        in Inr (templates ! nat (hash (title p) mod int (length templates))))"

definition generate_body :: "product \<Rightarrow> string list \<Rightarrow> py_error + string" where
  "generate_body p kws =
     (case index kws 1 of Inl e \<Rightarrow> Inl e | Inr k1 \<Rightarrow>
      case index kws 2 of Inl e \<Rightarrow> Inl e | Inr k2 \<Rightarrow>
      case index kws 3 of Inl e \<Rightarrow> Inl e | Inr k3 \<Rightarrow>
        Inr (join '' '' (body_parts p k1 k2 k3)))"

definition generate_cta :: "(string \<Rightarrow> int) \<Rightarrow> string \<Rightarrow> string \<Rightarrow> string" where
  "generate_cta hash product_name kw =
     (let templates = ctas product_name kw
      in templates ! nat (hash product_name mod int (length templates)))"

text \<open>\<^verbatim>\<open>_generate_structured_content\<close>, and \<^verbatim>\<open>generate_blog_content\<close>, which
  builds a prompt that it does not use and returns the structured content.\<close>

definition generate_structured_content ::
    "(string \<Rightarrow> int) \<Rightarrow> product \<Rightarrow> string list \<Rightarrow> py_error + string" where
  "generate_structured_content hash p kws =
     (let product_name = title p in
      case index kws 0 of Inl e \<Rightarrow> Inl e | Inr k0 \<Rightarrow>
        let headline = generate_headline hash product_name k0 in
        case generate_intro hash p kws of Inl e \<Rightarrow> Inl e | Inr intro \<Rightarrow>
        case generate_body p kws of Inl e \<Rightarrow> Inl e | Inr body \<Rightarrow>
        case index kws 0 of Inl e \<Rightarrow> Inl e | Inr k0' \<Rightarrow>
          let cta = generate_cta hash product_name k0'
          in Inr (headline @ [newline, newline] @ intro @ [newline, newline] @ body
                  @ [newline, newline] @ cta))"

definition generate_blog_content ::
    "(string \<Rightarrow> int) \<Rightarrow> product \<Rightarrow> string list \<Rightarrow> py_error + string" where
  "generate_blog_content hash p kws = generate_structured_content hash p kws"

section \<open>Keyword variation generator\<close>

text \<open>\<^verbatim>\<open>re.findall(r'\b[a-zA-Z]{4,}\b', s)\<close>. A match starts and ends at a word
  boundary, so it is a maximal run of word characters (letters, digits, underscore); it
  consists of letters only and has at least four of them.\<close>

definition is_word_char :: "char \<Rightarrow> bool" where
  "is_word_char c = (is_alpha c \<or> is_digit c \<or> c = CHR ''_'')"

fun word_runs_acc :: "string \<Rightarrow> string \<Rightarrow> string list" where
  "word_runs_acc cur [] = (if cur = [] then [] else [cur])"
| "word_runs_acc cur (c # cs) =
     (if is_word_char c then word_runs_acc (cur @ [c]) cs
      else if cur = [] then word_runs_acc [] cs else cur # word_runs_acc [] cs)"

definition findall_words :: "string \<Rightarrow> string list" where
  "findall_words s = filter (\<lambda>w. list_all is_alpha w \<and> 4 \<le> length w) (word_runs_acc [] s)"

text \<open>The dictionary \<^verbatim>\<open>modifiers\<close>, in the order of its keys.\<close>

definition modifiers :: "(string \<times> string list) list" where
  "modifiers =
     [(''informational'', [''best'', ''top'', ''guide'', ''review'', ''comparison'']),
      (''commercial'', [''buy'', ''affordable'', ''cheap'', ''deals'', ''discount'']),
      (''transactional'', [''price'', ''sale'', ''order'', ''shop'']),
      (''temporal'', [''2025'', ''new'', ''latest'', ''trending''])]"

text \<open>The set \<^verbatim>\<open>variations\<close> is kept as the list of its elements in the order in
  which they were first added; \<^verbatim>\<open>variations.add(x)\<close> is \<open>set_add\<close>.\<close>

definition set_add :: "string \<Rightarrow> string list \<Rightarrow> string list" where
  "set_add x xs = (if x \<in> set xs then xs else xs @ [x])"

text \<open>The body of the loop over \<^verbatim>\<open>core_terms\<close>, with its two inner loops.\<close>

definition add_modifier :: "string \<Rightarrow> string \<Rightarrow> string list \<Rightarrow> string list" where
  "add_modifier term m variations =
     set_add (term @ '' '' @ m) (set_add (m @ '' '' @ term) variations)"

definition add_term :: "string \<Rightarrow> string \<Rightarrow> string list \<Rightarrow> string list" where
  "add_term cat term variations =
     (let variations = set_add term variations;
          variations = fold (\<lambda>(intent_type, mods) vs. fold (add_modifier term) (take 2 mods) vs)
                         modifiers variations
      in set_add (term @ '' '' @ lower cat) variations)"

text \<open>\<^verbatim>\<open>_generate_keyword_variations\<close>. \<open>keyword_variations\<close> is the set
  \<^verbatim>\<open>variations\<close> when the function returns, in the order in which the generator
  produced its elements. \<^verbatim>\<open>list(variations)\<close> lists the set in the iteration order of
  the running process: \<open>set_order\<close> maps the elements, given in generation order, to
  that list.\<close>

definition keyword_variations :: "string list \<Rightarrow> string \<Rightarrow> string list" where
  "keyword_variations base_terms cat =
     (let core_terms = take 3 (filter (\<lambda>t. 4 < length t) base_terms);
          variations = fold (add_term cat) core_terms [];
          variations =
            (if 2 \<le> length core_terms
             then set_add (''best '' @ core_terms ! 0 @ '' '' @ core_terms ! 1)
                    (set_add (core_terms ! 0 @ '' '' @ core_terms ! 1) variations)
             else variations)
      in variations)"

definition generate_keyword_variations ::
    "(string list \<Rightarrow> string list) \<Rightarrow> string list \<Rightarrow> string \<Rightarrow> string list" where
  "generate_keyword_variations set_order base_terms cat =
     set_order (keyword_variations base_terms cat)"

section \<open>The pipeline\<close>

record blog_post =
  post_id :: string
  post_product_id :: string
  post_product_name :: string
  post_content :: string
  post_keywords :: "string list"
  post_word_count :: nat
  post_seo_score :: int
  post_readability_score :: rat
  post_generated_at :: string
  post_meta_description :: string
  post_slug :: string

record metrics =
  products_processed :: nat
  keywords_researched :: nat
  blogs_generated :: nat
  total_words :: nat

text \<open>The fields of \<^verbatim>\<open>AdvancedSEOBlogPipeline\<close>; \<^verbatim>\<open>keywords_database\<close> is a
  dictionary, kept as an association list in insertion order. \<open>init_pipeline\<close> is the
  object after \<^verbatim>\<open>__init__\<close>.\<close>

record pipeline =
  products :: "product list"
  keywords_database :: "(string \<times> keyword_info list) list"
  blog_posts :: "blog_post list"
  performance_metrics :: metrics

definition init_pipeline :: pipeline where
  "init_pipeline =
     \<lparr> products = [], keywords_database = [], blog_posts = [],
       performance_metrics = \<lparr> products_processed = 0, keywords_researched = 0,
                                blogs_generated = 0, total_words = 0 \<rparr> \<rparr>"

text \<open>\<^verbatim>\<open>sorted(xs, key=f, reverse=True)\<close>: the list is reversed, sorted by a stable
  ascending sort and reversed again.\<close>

definition sorted_reverse :: "('a \<Rightarrow> rat) \<Rightarrow> 'a list \<Rightarrow> 'a list" where
  "sorted_reverse f xs = rev (sort_key f (rev xs))"

text \<open>\<^verbatim>\<open>research_seo_keywords\<close>: the keywords selected and the pipeline after the call.\<close>

definition research_seo_keywords ::
    "(string list \<Rightarrow> string list) \<Rightarrow> pipeline \<Rightarrow> product \<Rightarrow> keyword_info list \<times> pipeline" where
  "research_seo_keywords set_order st p =
     (let title_words = findall_words (lower (title p));
          kws = generate_keyword_variations set_order title_words (category p);
          analyzed_keywords = analyze_keywords kws;
          top_keywords = take 4 (sorted_reverse seo_score analyzed_keywords);
          m = performance_metrics st
      in (top_keywords,
          st\<lparr> keywords_database := AList.update (product_id p) top_keywords (keywords_database st),
              performance_metrics :=
                m\<lparr> keywords_researched := keywords_researched m + length top_keywords \<rparr> \<rparr>))"

text \<open>\<^verbatim>\<open>_generate_meta_description\<close>: the loop takes words while the running count of
  characters stays within 155.\<close>

fun take_words :: "nat \<Rightarrow> string list \<Rightarrow> string list" where
  "take_words char_count [] = []"
| "take_words char_count (w # ws) =
     (if char_count + length w + 1 \<le> 155 then w # take_words (char_count + length w + 1) ws
      else [])"

definition generate_meta_description :: "string \<Rightarrow> string" where
  "generate_meta_description content =
     (let text = strip (replace [newline] '' '' (replace ''#'' '''' content));
          ws = split text
      in join '' '' (take_words 0 ws) @ ''...'')"

text \<open>\<^verbatim>\<open>generate_blog_post\<close>: the post and the pipeline after the call, or the
  exception. \<open>now\<close> is the time stamp \<^verbatim>\<open>datetime.now().isoformat()\<close>.\<close>

definition generate_blog_post ::
    "(string \<Rightarrow> int) \<Rightarrow> string \<Rightarrow> pipeline \<Rightarrow> product \<Rightarrow> keyword_info list
       \<Rightarrow> py_error + (blog_post \<times> pipeline)" where
  "generate_blog_post hash now st p kws =
     (let keyword_list = map keyword kws in
      case generate_blog_content hash p keyword_list of Inl e \<Rightarrow> Inl e | Inr blog_content \<Rightarrow>
        let wc = length (split blog_content) in
        case calculate_blog_seo_score blog_content keyword_list of Inl e \<Rightarrow> Inl e | Inr score \<Rightarrow>
          let post = \<lparr> post_id = ''BLOG_'' @ product_id p,
                       post_product_id = product_id p,
                       post_product_name = title p,
                       post_content = blog_content,
                       post_keywords = keyword_list,
                       post_word_count = wc,
                       post_seo_score = score,
                       post_readability_score = calculate_readability blog_content,
                       post_generated_at = now,
                       post_meta_description = generate_meta_description blog_content,
                       post_slug = generate_slug (title p) \<rparr>;
              m = performance_metrics st
          in Inr (post,
                  st\<lparr> blog_posts := blog_posts st @ [post],
                      performance_metrics :=
                        m\<lparr> blogs_generated := blogs_generated m + 1,
                           total_words := total_words m + wc \<rparr> \<rparr>))"

text \<open>\<^verbatim>\<open>generate_comprehensive_report\<close>. The report is text; what is kept of it are
  the values it computes: the average number of words per post, for every entry of the
  keyword database the title of its product (found with \<^verbatim>\<open>next\<close>, which raises
  \<^verbatim>\<open>StopIteration\<close> when no product has the id) with its keywords, and the two
  averages over the posts.\<close>

record report =
  average_words :: nat
  keyword_sections :: "(string \<times> keyword_info list) list"
  avg_seo_score :: rat
  avg_readability :: rat

fun find_product :: "product list \<Rightarrow> string \<Rightarrow> py_error + product" where
  "find_product [] i = Inl StopIteration"
| "find_product (p # ps) i = (if product_id p = i then Inr p else find_product ps i)"

fun report_keyword_sections ::
    "product list \<Rightarrow> (string \<times> keyword_info list) list
       \<Rightarrow> py_error + (string \<times> keyword_info list) list" where
  "report_keyword_sections ps [] = Inr []"
| "report_keyword_sections ps ((i, kws) # rest) =
     (case find_product ps i of Inl e \<Rightarrow> Inl e | Inr p \<Rightarrow>
      case report_keyword_sections ps rest of Inl e \<Rightarrow> Inl e | Inr secs \<Rightarrow>
        Inr ((title p, kws) # secs))"

definition generate_comprehensive_report :: "pipeline \<Rightarrow> py_error + report" where
  "generate_comprehensive_report st =
     (let m = performance_metrics st;
          words_per_post = total_words m div max (blogs_generated m) 1
      in case report_keyword_sections (products st) (keywords_database st) of
           Inl e \<Rightarrow> Inl e
         | Inr secs \<Rightarrow>
             if length (blog_posts st) = 0 then Inl ZeroDivisionError
             else
               let seo = of_int (sum_list (map post_seo_score (blog_posts st)))
                           / of_nat (length (blog_posts st));
                   readability = sum_list (map post_readability_score (blog_posts st))
                                   / of_nat (length (blog_posts st))
               in Inr \<lparr> average_words = words_per_post, keyword_sections = secs,
                         avg_seo_score = seo, avg_readability = readability \<rparr>)"

section \<open>Markdown renderer\<close>

text \<open>\<^verbatim>\<open>re.sub(r'^# (.+)$', r'<h1>\1</h1>', s, flags=re.MULTILINE)\<close> and the same with
  \<^verbatim>\<open>##\<close> and \<^verbatim>\<open>h2\<close>. With \<^verbatim>\<open>MULTILINE\<close> the pattern is tried at the start of
  every line; \<^verbatim>\<open>.\<close> matches everything but the line feed and \<^verbatim>\<open>$\<close> matches at the
  end of the line only, so a line matches as a whole or not at all: it matches when it is
  the marker, a space and at least one more character.\<close>

definition sub_heading_line :: "string \<Rightarrow> string \<Rightarrow> string \<Rightarrow> string" where
  "sub_heading_line marker tag line =
     (if prefix (marker @ '' '') line \<and> length (marker @ '' '') < length line
      then ''<'' @ tag @ ''>'' @ drop (length (marker @ '' '')) line @ ''</'' @ tag @ ''>''
      else line)"

function re_sub_heading :: "string \<Rightarrow> string \<Rightarrow> string \<Rightarrow> string" where
  "re_sub_heading marker tag s =
     (case dropWhile (\<lambda>c. c \<noteq> newline) s of
        [] \<Rightarrow> sub_heading_line marker tag (takeWhile (\<lambda>c. c \<noteq> newline) s)
      | nl # rest \<Rightarrow>
          sub_heading_line marker tag (takeWhile (\<lambda>c. c \<noteq> newline) s)
            @ nl # re_sub_heading marker tag rest)"
  by pat_completeness auto
termination
proof (relation "measure (\<lambda>(marker, tag, s). length s)")
  show "wf (measure (\<lambda>(marker, tag, s). length s))" by simp
next
  fix marker tag :: string and s nl rest
  assume "dropWhile (\<lambda>c. c \<noteq> newline) s = nl # rest"
  then have "Suc (length rest) = length (dropWhile (\<lambda>c. c \<noteq> newline) s)" by simp
  also have "\<dots> \<le> length s" by (rule length_dropWhile_le)
  finally show "((marker, tag, rest), (marker, tag, s)) \<in> measure (\<lambda>(marker, tag, s). length s)"
    by simp
qed

text \<open>\<^verbatim>\<open>re.sub(r'\*\*(.+?)\*\*', r'<strong>\1</strong>', s)\<close> and
  \<^verbatim>\<open>re.sub(r'\*(.+?)\*', r'<em>\1</em>', s)\<close>. After an opening delimiter the lazy
  group takes one character that is not a line feed, then as few more as it needs until
  the closing delimiter follows; \<open>find_close\<close> returns the group and what is left after
  the closing delimiter. Where there is no match the scan moves on by one character.\<close>

fun find_close :: "string \<Rightarrow> string \<Rightarrow> string \<Rightarrow> (string \<times> string) option" where
  "find_close delim inner [] = None"
| "find_close delim inner (c # cs) =
     (if c = newline then None
      else if prefix delim cs then Some (inner @ [c], drop (length delim) cs)
      else find_close delim (inner @ [c]) cs)"

lemma find_close_shorter:
  "find_close delim inner s = Some (g, rest) \<Longrightarrow> length rest < length s"
proof (induction s arbitrary: inner)
  case Nil
  then show ?case by simp
next
  case (Cons c cs)
  show ?case
  proof (cases "prefix delim cs")
    case True
    with Cons.prems show ?thesis by (auto split: if_splits)
  next
    case False
    with Cons.prems have "find_close delim (inner @ [c]) cs = Some (g, rest)"
      by (simp split: if_splits)
    then have "length rest < length cs" by (rule Cons.IH)
    then show ?thesis by simp
  qed
qed

function re_sub_delim :: "string \<Rightarrow> string \<Rightarrow> string \<Rightarrow> string" where
  "re_sub_delim delim tag [] = []"
| "re_sub_delim delim tag (c # cs) =
     (if prefix delim (c # cs)
      then (case find_close delim [] (drop (length delim) (c # cs)) of
              Some (g, rest) \<Rightarrow>
                ''<'' @ tag @ ''>'' @ g @ ''</'' @ tag @ ''>'' @ re_sub_delim delim tag rest
            | None \<Rightarrow> c # re_sub_delim delim tag cs)
      else c # re_sub_delim delim tag cs)"
  by pat_completeness auto
termination
proof (relation "measure (\<lambda>(delim, tag, s). length s)")
  show "wf (measure (\<lambda>(delim, tag, s). length s))" by simp
next
  fix delim tag :: string and c cs x2 g rest
  assume "find_close delim [] (drop (length delim) (c # cs)) = Some x2" and "(g, rest) = x2"
  then have "length rest < length (drop (length delim) (c # cs))"
    using find_close_shorter [of delim "[]" "drop (length delim) (c # cs)" g rest] by simp
  then show "((delim, tag, rest), (delim, tag, c # cs)) \<in> measure (\<lambda>(delim, tag, s). length s)"
    by simp
qed simp_all

text \<open>\<^verbatim>\<open>_markdown_to_html\<close>\<close>

definition markdown_to_html :: "string \<Rightarrow> string" where
  "markdown_to_html markdown =
     (let html = markdown;
          html = re_sub_heading ''#'' ''h1'' html;
          html = re_sub_heading ''##'' ''h2'' html;
          html = re_sub_delim ''**'' ''strong'' html;
          html = re_sub_delim ''*'' ''em'' html;
          html = replace [newline, newline] ''</p><p>'' html;
          html = ''<p>'' @ html @ ''</p>'';
          html = replace ''</h1></p>'' ''</h1>'' (replace ''<p><h1>'' ''<h1>'' html);
          html = replace ''</h2></p>'' ''</h2>'' (replace ''<p><h2>'' ''<h2>'' html)
      in html)"

text \<open>For the statements about rendering: none of the characters \<open>cs\<close> occurs in a
  field of the product that the templates use, nor in one of the first four keywords.\<close>

definition fields_avoid :: "string \<Rightarrow> product \<Rightarrow> string list \<Rightarrow> bool" where
  "fields_avoid cs p kws =
     list_all (\<lambda>s. list_all (\<lambda>c. c \<notin> set s) cs)
       ([title p, price p, rating p, reviews p, category p, description p] @ take 4 kws)"

section \<open>Example inputs\<close>

text \<open>The first mock product of \<^verbatim>\<open>scrape_trending_products\<close>, a product none of whose
  title words has more than four letters, and a list of four keywords.\<close>

definition headphones :: product where
  "headphones =
     \<lparr> product_id = ''PROD001'', title = ''Premium Noise Cancelling Wireless Headphones'',
       price = ''$129.99'', rating = ''4.7'', reviews = ''45,678'', category = ''Electronics'',
       description = ''Immersive sound quality with 40-hour battery life and premium comfort'',
       url = ''https://example.com/headphones'', trend_score = 95 \<rparr>"

definition desk_lamp :: product where
  "desk_lamp =
     \<lparr> product_id = ''PROD005'', title = ''USB Desk Lamp'', price = ''$19.99'',
       rating = ''4.4'', reviews = ''1,204'', category = ''Home Office'',
       description = ''Compact lamp with a USB plug'', url = ''https://example.com/lamp'',
       trend_score = 80 \<rparr>"

text \<open>A product with one title word of more than four letters.\<close>

definition wireless_lamp :: product where
  "wireless_lamp =
     \<lparr> product_id = ''PROD007'', title = ''Wireless Desk Lamp'', price = ''$24.99'',
       rating = ''4.5'', reviews = ''3,412'', category = ''Home Office'',
       description = ''Cordless lamp with a rechargeable battery'',
       url = ''https://example.com/wireless-lamp'', trend_score = 75 \<rparr>"

definition four_keywords :: "string list" where
  "four_keywords =
     [''best premium noise'', ''best premium'', ''premium best'', ''top premium'']"

text \<open>Three products whose titles carry a heading marker, an emphasis delimiter and a
  leading line feed.\<close>

definition csharp_book :: product where
  "csharp_book =
     \<lparr> product_id = ''PROD006'', title = ''C# in Depth'', price = ''$44.99'',
       rating = ''4.6'', reviews = ''2,310'', category = ''Books'',
       description = ''A guide to the language for working programmers'',
       url = ''https://example.com/csharp'', trend_score = 70 \<rparr>"

definition star_hotel :: product where
  "star_hotel = csharp_book \<lparr> title := ''5* Hotel Pillow'' \<rparr>"

definition broken_title :: product where
  "broken_title = csharp_book \<lparr> title := newline # ''Pillow'' \<rparr>"

section \<open>Properties\<close>

subsection \<open>Rounding\<close>

lemma round_half_even_lower:
  assumes "of_int a \<le> x"
  shows "a \<le> round_half_even x"
proof -
  have "a \<le> \<lfloor>x\<rfloor>"
    using assms by (simp add: le_floor_iff)
  then show ?thesis by (simp add: round_half_even_def Let_def)
qed

lemma round_half_even_upper:
  assumes "x \<le> of_int b"
  shows "round_half_even x \<le> b"
proof (cases "x = of_int b")
  case True
  then show ?thesis by (simp add: round_half_even_def)
next
  case False
  with assms have "x < of_int b" by simp
  then have "\<lfloor>x\<rfloor> < b" by (simp add: floor_less_iff)
  then show ?thesis by (simp add: round_half_even_def Let_def)
qed

lemma py_round_lower:
  assumes "of_int a \<le> x"
  shows "of_int a \<le> py_round x n"
proof -
  have "of_int (a * 10 ^ n) \<le> x * 10 ^ n"
    using assms by (simp add: mult_right_mono)
  then have "a * 10 ^ n \<le> round_half_even (x * 10 ^ n)"
    by (rule round_half_even_lower)
  then have "(of_int (a * 10 ^ n) :: rat) \<le> of_int (round_half_even (x * 10 ^ n))"
    by (simp only: of_int_le_iff)
  then show ?thesis
    by (simp add: py_round_def pos_le_divide_eq)
qed

lemma py_round_upper:
  assumes "x \<le> of_int b"
  shows "py_round x n \<le> of_int b"
proof -
  have "x * 10 ^ n \<le> of_int (b * 10 ^ n)"
    using assms by (simp add: mult_right_mono)
  then have "round_half_even (x * 10 ^ n) \<le> b * 10 ^ n"
    by (rule round_half_even_upper)
  then have "(of_int (round_half_even (x * 10 ^ n)) :: rat) \<le> of_int (b * 10 ^ n)"
    by (simp only: of_int_le_iff)
  then show ?thesis
    by (simp add: py_round_def pos_divide_le_eq)
qed

text \<open>Rounding to a double: the exponent found by \<open>exponent\<close> is that of a power
  of two below the number, so rounding keeps a number within integer bounds.\<close>

declare exp_up.simps [simp del] exp_down.simps [simp del]

lemma exp_up_lower: "1 \<le> x \<Longrightarrow> 2 powi exp_up x \<le> x"
proof (induction x rule: exp_up.induct)
  case (1 x)
  show ?case
  proof (cases "2 \<le> x")
    case True
    then have "2 powi exp_up (x / 2) \<le> x / 2" using 1 by simp
    moreover have "exp_up x = exp_up (x / 2) + 1" using True by (subst exp_up.simps) simp
    ultimately show ?thesis by (simp add: power_int_add)
  next
    case False
    then have "exp_up x = 0" by (subst exp_up.simps) simp
    with "1.prems" show ?thesis by simp
  qed
qed

lemma exp_down_lower: "0 < x \<Longrightarrow> x < 1 \<Longrightarrow> 2 powi exp_down x \<le> x"
proof (induction x rule: exp_down.induct)
  case (1 x)
  have e: "exp_down x = exp_down (x * 2) - 1" using "1.prems" by (subst exp_down.simps) simp
  show ?case
  proof (cases "x * 2 < 1")
    case True
    then have "2 powi exp_down (x * 2) \<le> x * 2" using 1 by simp
    then show ?thesis by (simp add: e power_int_diff)
  next
    case False
    then have "exp_down (x * 2) = 0" by (subst exp_down.simps) simp
    with False show ?thesis by (simp add: e)
  qed
qed

lemma exponent_lower: "0 < x \<Longrightarrow> 2 powi exponent x \<le> x"
  using exp_up_lower [of x] exp_down_lower [of x] by (auto simp: exponent_def)

lemma fl_nonneg: "0 \<le> x \<Longrightarrow> 0 \<le> fl x"
proof (cases "x = 0")
  case True
  then show ?thesis by (simp add: fl_def)
next
  case False
  assume "0 \<le> x"
  define u :: rat where "u = 2 powi (exponent x - 52)"
  have u: "0 < u" by (simp add: u_def)
  then have "of_int 0 \<le> x / u" using \<open>0 \<le> x\<close> by simp
  then have "0 \<le> round_half_even (x / u)" by (rule round_half_even_lower)
  then show ?thesis using u False by (simp add: fl_def Let_def u_def [symmetric])
qed

lemma fl_upper:
  assumes "0 < x" and "x \<le> of_int b" and "b < 2 ^ 53"
  shows "fl x \<le> of_int b"
proof -
  define e where "e = exponent x"
  define u :: rat where "u = 2 powi (e - 52)"
  have u: "0 < u" by (simp add: u_def)
  have "(2::rat) powi e \<le> x" unfolding e_def using assms(1) by (rule exponent_lower)
  also have "x \<le> of_int b" by fact
  also have "(of_int b :: rat) < 2 ^ 53" using assms(3) by (metis of_int_less_iff of_int_numeral of_int_power)
  finally have "(2::rat) powi e < 2 powi 53" by simp
  then have e: "e < 53" by (rule power_int_le_imp_less_exp [rotated]) simp_all
  define n where "n = nat (52 - e)"
  have n: "int n = 52 - e" using e by (simp add: n_def)
  have "u * 2 ^ n = 2 powi (e - 52) * 2 powi (int n)" by (simp add: u_def)
  also have "\<dots> = (2::rat) powi ((e - 52) + int n)" by (simp add: power_int_add)
  also have "\<dots> = 1" by (simp add: n)
  finally have un: "u * 2 ^ n = 1" .
  then have inv: "1 / u = 2 ^ n" using u by (simp add: field_simps)
  have "x / u \<le> of_int b / u" using assms(2) u by (simp add: divide_right_mono)
  also have "of_int b / u = of_int b * (1 / u)" by simp
  also have "\<dots> = of_int (b * 2 ^ n)" by (simp only: inv) simp
  finally have "round_half_even (x / u) \<le> b * 2 ^ n" by (rule round_half_even_upper)
  then have "(of_int (round_half_even (x / u)) :: rat) \<le> of_int (b * 2 ^ n)" by (simp only: of_int_le_iff)
  then have "of_int (round_half_even (x / u)) * u \<le> of_int (b * 2 ^ n) * u"
    using u by (simp add: mult_right_mono)
  also have "of_int (b * 2 ^ n) * u = of_int b * (u * 2 ^ n)" by simp
  also have "\<dots> = of_int b" by (simp only: un mult_1_right)
  finally show ?thesis
    using assms(1) by (simp add: fl_def Let_def e_def [symmetric] u_def [symmetric])
qed

lemma fl_fifty: "fl 50 = 50"
  by code_simp

lemma round_float_tenths:
  assumes "0 \<le> v" and "v \<le> 100"
  shows "\<exists>k::int. 0 \<le> k \<and> k \<le> 1000 \<and> round_float v 1 = fl (of_int k / 10)"
    and "0 \<le> round_float v 1" and "round_float v 1 \<le> 100"
proof -
  define k where "k = round_half_even (v * 10)"
  have q: "py_round v 1 = of_int k / 10" by (simp add: py_round_def k_def)
  have "of_int 0 \<le> v * 10" using assms(1) by simp
  then have k0: "0 \<le> k" unfolding k_def by (rule round_half_even_lower)
  have "v * 10 \<le> of_int 1000" using assms(2) by simp
  then have k1: "k \<le> 1000" unfolding k_def by (rule round_half_even_upper)
  show "\<exists>k::int. 0 \<le> k \<and> k \<le> 1000 \<and> round_float v 1 = fl (of_int k / 10)"
  proof (intro exI conjI)
    show "0 \<le> k" by fact
    show "k \<le> 1000" by fact
    show "round_float v 1 = fl (of_int k / 10)" by (simp only: round_float_def q)
  qed
  have q0: "0 \<le> py_round v 1" unfolding q using k0 by simp
  then show "0 \<le> round_float v 1" by (simp add: round_float_def fl_nonneg)
  have q1: "py_round v 1 \<le> of_int 100" unfolding q using k1 by simp
  show "round_float v 1 \<le> 100"
  proof (cases "py_round v 1 = 0")
    case True
    then show ?thesis by (simp add: round_float_def fl_def)
  next
    case False
    with q0 have "0 < py_round v 1" by simp
    then have "fl (py_round v 1) \<le> of_int 100" using q1 by (rule fl_upper) simp
    then show ?thesis by (simp add: round_float_def)
  qed
qed

subsection \<open>Bounds of the keyword scores\<close>

lemma estimate_search_volume_range:
  "50 \<le> estimate_search_volume kw \<and> estimate_search_volume kw \<le> 95"
  by (simp add: estimate_search_volume_def Let_def)

lemma estimate_difficulty_range:
  "40 \<le> estimate_difficulty kw \<and> estimate_difficulty kw \<le> 70"
  by (simp add: estimate_difficulty_def Let_def)

lemma calculate_relevance_values:
  "calculate_relevance kw wc = 70 \<or> calculate_relevance kw wc = 90"
  by (simp add: calculate_relevance_def Let_def)

lemma weighted_sum_range:
  fixes a b c :: rat
  assumes "50 \<le> a" "a \<le> 95" "30 \<le> b" "b \<le> 60" "70 \<le> c" "c \<le> 90"
  shows "50 \<le> a * (4 / 10) + b * (3 / 10) + c * (3 / 10)"
    and "a * (4 / 10) + b * (3 / 10) + c * (3 / 10) \<le> 83"
  using assms by linarith+

lemma combined_score_range:
  assumes "50 \<le> v" "v \<le> 95" "40 \<le> d" "d \<le> 70" "70 \<le> r" "r \<le> 90"
  shows "50 \<le> combined_score v d r \<and> combined_score v d r \<le> 83"
proof -
  have v: "(50::rat) \<le> of_int v" "(of_int v :: rat) \<le> 95"
    using assms(1,2) by (simp_all add: of_int_le_iff [symmetric] del: of_int_le_iff)
  have d: "(30::rat) \<le> of_int (100 - d)" "(of_int (100 - d) :: rat) \<le> 60"
    using assms(3,4) by (simp_all add: of_int_le_iff [symmetric] del: of_int_le_iff)
  have r: "(70::rat) \<le> of_int r" "(of_int r :: rat) \<le> 90"
    using assms(5,6) by (simp_all add: of_int_le_iff [symmetric] del: of_int_le_iff)
  show ?thesis
    unfolding combined_score_def
    using weighted_sum_range [OF v d r] by (rule conjI)
qed

text \<open>
  C10. For every keyword string the volume score lies in 50..95, the difficulty score in
  40..70 and the relevance score is 70 or 90 (for every word count passed in), so each is
  below 100 and the caps \<^verbatim>\<open>min(., 100)\<close> never cut anything off; the weighted sum
  \<open>volume * 0.4 + (100 - difficulty) * 0.3 + relevance * 0.3\<close> of the three scores of a
  keyword lies in 50..83, and so does the rounded score stored by \<^verbatim>\<open>_analyze_keywords\<close>.
\<close>

theorem keyword_scores_bounded:
  "50 \<le> estimate_search_volume kw \<and> estimate_search_volume kw \<le> 95 \<and>
   40 \<le> estimate_difficulty kw \<and> estimate_difficulty kw \<le> 70 \<and>
   calculate_relevance kw wc \<in> {70, 90} \<and>
   estimate_search_volume kw < 100 \<and> estimate_difficulty kw < 100 \<and>
   calculate_relevance kw wc < 100 \<and>
   50 \<le> combined_score (estimate_search_volume kw) (estimate_difficulty kw)
           (calculate_relevance kw wc) \<and>
   combined_score (estimate_search_volume kw) (estimate_difficulty kw)
           (calculate_relevance kw wc) \<le> 83 \<and>
   50 \<le> seo_score (analyze_keyword kw) \<and> seo_score (analyze_keyword kw) \<le> 83"
proof -
  note v = estimate_search_volume_range [of kw]
  note d = estimate_difficulty_range [of kw]
  have r: "70 \<le> calculate_relevance kw n \<and> calculate_relevance kw n \<le> 90" for n
    using calculate_relevance_values [of kw n] by auto
  have c: "50 \<le> combined_score (estimate_search_volume kw) (estimate_difficulty kw)
             (calculate_relevance kw n) \<and>
           combined_score (estimate_search_volume kw) (estimate_difficulty kw)
             (calculate_relevance kw n) \<le> 83" for n
    using v d r [of n] by (intro combined_score_range) simp_all
  have lo: "50 \<le> seo_score (analyze_keyword kw)"
    using py_round_lower [of 50 _ 2] c [of "length (split kw)"]
    by (simp add: analyze_keyword_def Let_def)
  have hi: "seo_score (analyze_keyword kw) \<le> 83"
    using py_round_upper [of _ 83 2] c [of "length (split kw)"]
    by (simp add: analyze_keyword_def Let_def)
  show ?thesis
    using v d r [of wc] c [of wc] lo hi calculate_relevance_values [of kw wc] by auto
qed

subsection \<open>The slug\<close>

lemma re_sub_non_alnum_chars:
  "c \<in> set (re_sub_non_alnum s) \<Longrightarrow> is_slug_char c \<or> c = CHR ''-''"
  by (induction s rule: re_sub_non_alnum.induct) (auto split: if_splits)

lemma strip_char_subset: "set (strip_char c s) \<subseteq> set s"
  unfolding strip_char_def
  by (metis (no_types, lifting) set_dropWhileD set_rev subsetI)

lemma last_dropWhile: "dropWhile P xs \<noteq> [] \<Longrightarrow> last (dropWhile P xs) = last xs"
  by (induction xs) (auto split: if_splits)

lemma strip_char_hd:
  assumes "strip_char c s \<noteq> []"
  shows "hd (strip_char c s) \<noteq> c"
proof -
  let ?P = "\<lambda>d. d = c"
  let ?ys = "dropWhile ?P s"
  from assms have ne: "dropWhile ?P (rev ?ys) \<noteq> []"
    by (simp add: strip_char_def)
  have ys: "?ys \<noteq> []"
  proof
    assume "?ys = []"
    then have "dropWhile ?P (rev ?ys) = []" by (simp only: rev.simps dropWhile.simps)
    with ne show False by simp
  qed
  have "hd (strip_char c s) = last (dropWhile ?P (rev ?ys))"
    using ne by (simp add: strip_char_def hd_rev)
  also have "\<dots> = last (rev ?ys)"
    using ne by (rule last_dropWhile)
  also have "\<dots> = hd ?ys"
    using ys by (simp add: last_rev)
  finally show ?thesis
    using hd_dropWhile [OF ys] by simp
qed

text \<open>What does hold of every slug: its characters are lower-case letters, digits and
  hyphens, it has at most 60 characters, and it does not begin with a hyphen.\<close>

lemma generate_slug_chars:
  "c \<in> set (generate_slug t) \<Longrightarrow> is_slug_char c \<or> c = CHR ''-''"
  unfolding generate_slug_def Let_def
  by (meson in_set_takeD re_sub_non_alnum_chars strip_char_subset subsetD)

lemma generate_slug_length: "length (generate_slug t) \<le> 60"
  by (simp add: generate_slug_def)

lemma generate_slug_hd: "generate_slug t \<noteq> [] \<Longrightarrow> hd (generate_slug t) \<noteq> CHR ''-''"
  unfolding generate_slug_def Let_def
  by (auto simp: strip_char_hd)

text \<open>
  C4. The slug is cut to 60 characters after the hyphens at its ends were stripped, so
  the cut can end on a hyphen: the title below has the hyphen that follows
  \<open>bluetooth\<close> as its 60th slug character, and its slug ends with it.
\<close>

theorem generate_slug_trailing_hyphen:
  "generate_slug ''Premium Noise Cancelling Wireless Headphones with Bluetooth 5.0''
     = ''premium-noise-cancelling-wireless-headphones-with-bluetooth-'' \<and>
   last (generate_slug ''Premium Noise Cancelling Wireless Headphones with Bluetooth 5.0'')
     = CHR ''-''"
  by code_simp

subsection \<open>The SEO score\<close>

lemma py_int_mono: "x \<le> y \<Longrightarrow> py_int x \<le> py_int y"
  unfolding py_int_def
  by (auto intro: floor_mono ceiling_mono order_trans [of _ 0] simp: not_le ceiling_le_zero zero_le_floor)

lemma py_int_nonneg: "0 \<le> x \<Longrightarrow> 0 \<le> py_int x"
  by (simp add: py_int_def)

lemma seo_score_unfold:
  "calculate_blog_seo_score content kws =
     (if kws = [] then Inl ZeroDivisionError
      else Inr (min (py_int (of_nat (keywords_found (lower content) kws) / of_nat (length kws) * 40
                  + (if 150 \<le> length (split content) \<and> length (split content) \<le> 200 then 20
                     else if 140 \<le> length (split content) \<and> length (split content) \<le> 210 then 15 else 0)
                  + (if prefix ''#'' content then 20 else 0)
                  + (if has_cta_word (lower content) then 20 else 0))) 100))"
  by (simp add: calculate_blog_seo_score_def Let_def)

lemma seo_terms_nonneg:
  fixes q :: rat
  assumes "0 \<le> q"
  shows "0 \<le> q * 40 + (if a then 20 else if b then 15 else 0) + (if h then 20 else 0) + (if c then 20 else 0)"
  using assms by auto

text \<open>
  C5 (as amended). For every content and every keyword list that is not empty the SEO
  score is an integer between 0 and 100. It does not decrease when more keywords are
  found: for two calls with keyword lists of the same length (the same list, say), the
  same word count, the same answer to "begins with a heading marker" and the same
  answer to "contains a call-to-action word", the call that finds at least as many
  keywords scores at least as much.
\<close>

theorem seo_score_range_monotone:
  "(kws \<noteq> [] \<longrightarrow>
      (\<exists>n. calculate_blog_seo_score content kws = Inr n \<and> 0 \<le> n \<and> n \<le> 100)) \<and>
   (kws \<noteq> [] \<and> length kws' = length kws \<and>
    length (split content') = length (split content) \<and>
    prefix ''#'' content' = prefix ''#'' content \<and>
    has_cta_word (lower content') = has_cta_word (lower content) \<and>
    keywords_found (lower content) kws \<le> keywords_found (lower content') kws' \<longrightarrow>
      (\<exists>n n'. calculate_blog_seo_score content kws = Inr n \<and>
               calculate_blog_seo_score content' kws' = Inr n' \<and> n \<le> n'))"
proof (intro conjI impI)
  assume ne: "kws \<noteq> []"
  have "0 \<le> (of_nat (keywords_found (lower content) kws) :: rat) / of_nat (length kws)"
    by simp
  from seo_terms_nonneg [OF this]
  show "\<exists>n. calculate_blog_seo_score content kws = Inr n \<and> 0 \<le> n \<and> n \<le> 100"
    using ne by (simp add: seo_score_unfold py_int_nonneg)
next
  assume h: "kws \<noteq> [] \<and> length kws' = length kws \<and>
    length (split content') = length (split content) \<and>
    prefix ''#'' content' = prefix ''#'' content \<and>
    has_cta_word (lower content') = has_cta_word (lower content) \<and>
    keywords_found (lower content) kws \<le> keywords_found (lower content') kws'"
  then have ne: "kws \<noteq> []" "kws' \<noteq> []" by auto
  define B :: rat where "B =
      (if 150 \<le> length (split content) \<and> length (split content) \<le> 200 then 20
       else if 140 \<le> length (split content) \<and> length (split content) \<le> 210 then 15 else 0)
      + (if prefix ''#'' content then 20 else 0)
      + (if has_cta_word (lower content) then 20 else 0)"
  define q :: rat where "q = of_nat (keywords_found (lower content) kws) / of_nat (length kws)"
  define q' :: rat where "q' = of_nat (keywords_found (lower content') kws') / of_nat (length kws')"
  from h have same: "length (split content') = length (split content)"
    "prefix ''#'' content' = prefix ''#'' content"
    "has_cta_word (lower content') = has_cta_word (lower content)"
    by simp_all
  have 1: "calculate_blog_seo_score content kws = Inr (min (py_int (q * 40 + B)) 100)"
    by (simp only: seo_score_unfold B_def q_def ne if_False add.assoc)
  have 2: "calculate_blog_seo_score content' kws' = Inr (min (py_int (q' * 40 + B)) 100)"
    by (simp only: seo_score_unfold B_def q'_def ne if_False same add.assoc)
  have "q \<le> q'"
    using h by (simp add: q_def q'_def divide_right_mono)
  then have "q * 40 + B \<le> q' * 40 + B" by simp
  then have "py_int (q * 40 + B) \<le> py_int (q' * 40 + B)" by (rule py_int_mono)
  then have "min (py_int (q * 40 + B)) 100 \<le> min (py_int (q' * 40 + B)) 100"
    by (simp add: min_le_iff_disj)
  with 1 2 show "\<exists>n n'. calculate_blog_seo_score content kws = Inr n \<and>
               calculate_blog_seo_score content' kws' = Inr n' \<and> n \<le> n'"
    by simp
qed

text \<open>C5 as stated speaks of every keyword list: on the empty list there is no score.\<close>

theorem seo_score_empty_counterexample:
  "\<not> (\<exists>n. calculate_blog_seo_score ''# Shop now'' [] = Inr n \<and> 0 \<le> n \<and> n \<le> 100)"
  by (simp add: calculate_blog_seo_score_def Let_def)

text \<open>
  C9. The keyword term of the SEO score divides by the length of the keyword list with
  no guard: whatever the content, the call raises \<^verbatim>\<open>ZeroDivisionError\<close> exactly when
  the keyword list is empty, and returns a score exactly when it is not.
\<close>

theorem seo_score_total_iff_nonempty:
  "(calculate_blog_seo_score content kws = Inl ZeroDivisionError) = (kws = []) \<and>
   (\<exists>n. calculate_blog_seo_score content kws = Inr n) = (kws \<noteq> [])"
  by (simp add: seo_score_unfold)


text \<open>An instance of C5: one keyword found against two, everything else the same.\<close>

theorem seo_score_range_monotone_witness:
  "([''gadgets'', ''phone''] \<noteq> [] \<and>
    length [''gadgets'', ''phone''] = length [''gadgets'', ''phone''] \<and>
    length (split ''# Shop gadgets phone'') = length (split ''# Shop gadgets today'') \<and>
    prefix ''#'' ''# Shop gadgets phone'' = prefix ''#'' ''# Shop gadgets today'' \<and>
    has_cta_word (lower ''# Shop gadgets phone'') = has_cta_word (lower ''# Shop gadgets today'') \<and>
    keywords_found (lower ''# Shop gadgets today'') [''gadgets'', ''phone'']
      \<le> keywords_found (lower ''# Shop gadgets phone'') [''gadgets'', ''phone'']) \<and>
   (\<exists>n. calculate_blog_seo_score ''# Shop gadgets today'' [''gadgets'', ''phone''] = Inr n \<and>
        0 \<le> n \<and> n \<le> 100) \<and>
   (\<exists>n n'. calculate_blog_seo_score ''# Shop gadgets today'' [''gadgets'', ''phone''] = Inr n \<and>
        calculate_blog_seo_score ''# Shop gadgets phone'' [''gadgets'', ''phone''] = Inr n' \<and>
        n \<le> n')"
proof -
  have h: "[''gadgets'', ''phone''] \<noteq> [] \<and>
    length [''gadgets'', ''phone''] = length [''gadgets'', ''phone''] \<and>
    length (split ''# Shop gadgets phone'') = length (split ''# Shop gadgets today'') \<and>
    prefix ''#'' ''# Shop gadgets phone'' = prefix ''#'' ''# Shop gadgets today'' \<and>
    has_cta_word (lower ''# Shop gadgets phone'') = has_cta_word (lower ''# Shop gadgets today'') \<and>
    keywords_found (lower ''# Shop gadgets today'') [''gadgets'', ''phone'']
      \<le> keywords_found (lower ''# Shop gadgets phone'') [''gadgets'', ''phone'']"
    by code_simp
  note t = seo_score_range_monotone [of "[''gadgets'', ''phone'']" "''# Shop gadgets today''"
      "[''gadgets'', ''phone'']" "''# Shop gadgets phone''"]
  from t h show ?thesis by blast
qed

subsection \<open>The readability score\<close>

lemma count_char_zero: "(count_char c s = 0) = (c \<notin> set s)"
  by (auto simp: count_char_def filter_empty_conv)

text \<open>The syllable counter of the code is the estimate of the number of syllables of a
  word: the number of places where a vowel (one of \<open>aeiouy\<close>) follows a non-vowel or
  starts the word, less one when the word ends in \<open>e\<close>, and at least 1.\<close>

lemma count_vowel_groups_transitions:
  "count_vowel_groups cs b n =
     n + int (length (filter (\<lambda>(previous, current). current \<and> \<not> previous)
                        (zip (b # map is_vowel cs) (map is_vowel cs))))"
  by (induction cs arbitrary: b n) (auto simp: is_vowel_def Let_def)

lemma transition_exists:
  "\<not> b \<Longrightarrow> True \<in> set vs \<Longrightarrow>
     0 < length (filter (\<lambda>(previous, current). current \<and> \<not> previous) (zip (b # vs) vs))"
proof (induction vs arbitrary: b)
  case Nil
  then show ?case by simp
next
  case (Cons v vs)
  show ?case
  proof (cases v)
    case True
    with Cons.prems show ?thesis by simp
  next
    case False
    with Cons.prems have "True \<in> set vs" by auto
    with False have "0 < length (filter (\<lambda>(previous, current). current \<and> \<not> previous) (zip (v # vs) vs))"
      by (intro Cons.IH) simp_all
    then show ?thesis by simp
  qed
qed

lemma suffix_single: "suffix [x] xs = (xs \<noteq> [] \<and> last xs = x)"
  by (cases xs rule: rev_cases) auto

lemma count_syllables_spec: "count_syllables w = syllable_estimate w"
proof -
  define t where "t = vowel_transitions (lower w)"
  have cnt: "count_vowel_groups (lower w) False 0 = int t"
    by (simp add: count_vowel_groups_transitions t_def vowel_transitions_def)
  have ends: "suffix ''e'' (lower w) = (w \<noteq> [] \<and> last (lower w) = CHR ''e'')"
    by (simp add: suffix_single lower_def)
  show ?thesis
  proof (cases "w \<noteq> [] \<and> last (lower w) = CHR ''e''")
    case True
    then have "CHR ''e'' \<in> set (lower w)"
      by (metis last_in_set lower_def map_is_Nil_conv)
    then have "True \<in> set (map is_vowel (lower w))"
      by (force simp: is_vowel_def)
    then have "0 < t"
      unfolding t_def vowel_transitions_def by (intro transition_exists) simp_all
    with True show ?thesis
      by (simp add: count_syllables_def Let_def cnt ends syllable_estimate_def t_def [symmetric])
  next
    case False
    then show ?thesis
      by (auto simp: count_syllables_def Let_def cnt ends syllable_estimate_def t_def [symmetric])
  qed
qed

text \<open>
  C6. For every content the readability score lies between 0 and 100 and is the double
  nearest to a whole number of tenths between 0.0 and 100.0. It is 50 when the content has
  none of the characters \<open>.\<close>, \<open>!\<close>, \<open>?\<close> or has no words; otherwise it is
  the value \<open>206.835 - 1.015 * (words / sentences) - 84.6 * (syllables / words)\<close>,
  computed in double precision (each constant and each operation rounded by \<open>fl\<close>),
  clamped to 0..100 and rounded to one decimal. Words are the whitespace-separated pieces
  of the content, sentences the number of characters \<open>.\<close>, \<open>!\<close>, \<open>?\<close>, and
  syllables the sum of the syllable estimates of the words. Three contents are worked
  out: 8 words, 2 sentences and 11 syllables give 86.5; 24 words, 6 sentences and 37
  syllables give the double of 72.3; no sentence end gives 50.
\<close>

theorem readability_range_default:
  "0 \<le> calculate_readability c \<and> calculate_readability c \<le> 100 \<and>
   (\<exists>k::int. 0 \<le> k \<and> k \<le> 1000 \<and> calculate_readability c = fl (of_int k / 10)) \<and>
   calculate_readability c =
     (if (CHR ''.'' \<notin> set c \<and> CHR ''!'' \<notin> set c \<and> CHR ''?'' \<notin> set c) \<or> split c = []
      then 50
      else round_float (max 0 (min 100
             (fl (fl (fl (206835 / 1000)
                      - fl (fl (1015 / 1000)
                            * fl (of_nat (length (split c))
                                  / of_nat (count_char CHR ''.'' c + count_char CHR ''!'' c
                                            + count_char CHR ''?'' c))))
                  - fl (fl (846 / 10)
                        * fl (of_int (sum_list (map syllable_estimate (split c)))
                              / of_nat (length (split c)))))))) 1) \<and>
   calculate_readability ''The cat sat on the mat. Happy banana!'' = 173 / 2 \<and>
   calculate_readability (''The kitten sat on the carpet. Happy banana! ''
      @ ''The kitten sat on the mat. Happy banana! The kitten sat on the mat. Happy banana!'')
     = fl (723 / 10) \<and>
   calculate_readability ''no terminal punctuation here'' = 50"
proof -
  let ?s = "count_char CHR ''.'' c + count_char CHR ''!'' c + count_char CHR ''?'' c"
  let ?w = "length (split c)"
  let ?y = "sum_list (map syllable_estimate (split c))"
  let ?x = "max 0 (min 100 (flesch ?w ?s ?y))"
  have cond: "(?s = 0 \<or> ?w = 0) =
      ((CHR ''.'' \<notin> set c \<and> CHR ''!'' \<notin> set c \<and> CHR ''?'' \<notin> set c) \<or> split c = [])"
    by (simp add: count_char_zero)
  have syl: "sum_list (map count_syllables (split c)) = ?y"
    by (simp add: count_syllables_spec [abs_def])
  have eq: "calculate_readability c = (if ?s = 0 \<or> ?w = 0 then 50 else round_float ?x 1)"
    unfolding calculate_readability_def Let_def syl by simp
  have x: "0 \<le> ?x" "?x \<le> 100" by simp_all
  note r = round_float_tenths [OF x]
  have fifty: "\<exists>k::int. 0 \<le> k \<and> k \<le> 1000 \<and> (50::rat) = fl (of_int k / 10)"
    by (rule exI [of _ 500]) (simp add: fl_fifty)
  have 1: "0 \<le> calculate_readability c \<and> calculate_readability c \<le> 100"
    unfolding eq using r(2,3) by simp
  have 2: "\<exists>k::int. 0 \<le> k \<and> k \<le> 1000 \<and> calculate_readability c = fl (of_int k / 10)"
    unfolding eq using fifty r(1) by (simp split: if_splits)
  have 3: "calculate_readability c =
     (if (CHR ''.'' \<notin> set c \<and> CHR ''!'' \<notin> set c \<and> CHR ''?'' \<notin> set c) \<or> split c = []
      then 50 else round_float ?x 1)"
    using eq unfolding cond .
  have 4: "calculate_readability ''The cat sat on the mat. Happy banana!'' = 173 / 2 \<and>
     calculate_readability (''The kitten sat on the carpet. Happy banana! ''
        @ ''The kitten sat on the mat. Happy banana! The kitten sat on the mat. Happy banana!'')
       = fl (723 / 10) \<and>
     calculate_readability ''no terminal punctuation here'' = 50"
    by code_simp
  show ?thesis
    by (intro conjI) (rule 1 [THEN conjunct1], rule 1 [THEN conjunct2], rule 2,
        rule 3 [unfolded flesch_def], rule 4 [THEN conjunct1],
        rule 4 [THEN conjunct2, THEN conjunct1], rule 4 [THEN conjunct2, THEN conjunct2])
qed

subsection \<open>The report\<close>

lemma report_needs_a_post:
  "blog_posts st = [] \<Longrightarrow> generate_comprehensive_report st \<noteq> Inr r"
  by (simp add: generate_comprehensive_report_def Let_def split: sum.splits)

text \<open>
  C8. The report of a pipeline that has generated no post: the average number of words per
  post is guarded by \<^verbatim>\<open>max(blogs_generated, 1)\<close> and is 0, but the average SEO score
  divides by \<^verbatim>\<open>len(self.blog_posts)\<close>, which is 0, and the call raises
  \<^verbatim>\<open>ZeroDivisionError\<close> instead of giving a default.
\<close>

theorem report_without_posts_fails:
  "generate_comprehensive_report init_pipeline = Inl ZeroDivisionError \<and>
   total_words (performance_metrics init_pipeline)
     div max (blogs_generated (performance_metrics init_pipeline)) 1 = 0"
  by (simp add: generate_comprehensive_report_def init_pipeline_def)

subsection \<open>Fewer than four keywords\<close>

lemma structured_content_short:
  "length ks < 4 \<Longrightarrow> generate_structured_content hash p ks = Inl IndexError"
  by (simp add: generate_structured_content_def generate_intro_def generate_body_def
        index_def Let_def split: sum.splits)

lemma structured_content_long:
  "4 \<le> length ks \<Longrightarrow> \<exists>c. generate_structured_content hash p ks = Inr c"
  by (auto simp add: generate_structured_content_def generate_intro_def generate_body_def
        index_def Let_def split: sum.splits)

text \<open>
  C1 (as amended). Blog-post generation does not pad the keyword list. Given fewer than 4
  keywords it raises \<^verbatim>\<open>IndexError\<close> (the templater reads \<^verbatim>\<open>keywords[0]\<close> to
  \<^verbatim>\<open>keywords[3]\<close>); given 4 or more it returns a post whose keyword list is the list
  it was given, of the same length.
\<close>

theorem blog_post_needs_four_keywords:
  "(generate_blog_post hash now st p kws = Inl IndexError) = (length kws < 4) \<and>
   (\<exists>post st'. generate_blog_post hash now st p kws = Inr (post, st') \<and>
        post_keywords post = map keyword kws \<and> length (post_keywords post) = length kws)
     = (4 \<le> length kws)"
proof (cases "length kws < 4")
  case True
  then have "generate_blog_post hash now st p kws = Inl IndexError"
    by (simp add: generate_blog_post_def generate_blog_content_def structured_content_short)
  with True show ?thesis by simp
next
  case False
  then have len: "4 \<le> length (map keyword kws)" by simp
  then obtain c where c: "generate_structured_content hash p (map keyword kws) = Inr c"
    using structured_content_long by blast
  from len have "map keyword kws \<noteq> []" by auto
  then obtain n where n: "calculate_blog_seo_score c (map keyword kws) = Inr n"
    using seo_score_unfold [of c "map keyword kws"] by simp
  show ?thesis
    using False c n
    by (simp add: generate_blog_post_def generate_blog_content_def Let_def)
qed

text \<open>C1 as stated fails on a product whose title has no word of more than four letters:
  keyword research selects nothing, and generating the post raises.\<close>

theorem blog_post_not_padded_counterexample:
  "fst (research_seo_keywords (\<lambda>xs. xs) init_pipeline desk_lamp) = [] \<and>
   generate_blog_post (\<lambda>s. 0) ''2025-01-01T00:00:00''
     (snd (research_seo_keywords (\<lambda>xs. xs) init_pipeline desk_lamp)) desk_lamp
     (fst (research_seo_keywords (\<lambda>xs. xs) init_pipeline desk_lamp)) = Inl IndexError"
  by code_simp

subsection \<open>Template selection\<close>







subsection \<open>Ranking\<close>

lemma sorted_reverse_stable:
  "filter (\<lambda>x. f x = k) (sorted_reverse f xs) = filter (\<lambda>x. f x = k) xs"
  by (simp add: sorted_reverse_def rev_filter [symmetric] sort_key_stable)

lemma sorted_reverse_descending:
  "sorted_wrt (\<lambda>a b. f b \<le> f a) (sorted_reverse f xs)"
proof -
  have "sorted (map f (sort_key f (rev xs)))" by (rule sorted_sort_key)
  then have "sorted_wrt (\<lambda>a b. f a \<le> f b) (sort_key f (rev xs))"
    by (simp add: sorted_wrt_map)
  then show ?thesis
    by (simp add: sorted_reverse_def sorted_wrt_rev)
qed

lemma filter_take_prefix: "prefix (filter P (take n xs)) (filter P xs)"
  by (rule filter_mono_prefix) (rule take_is_prefix)

text \<open>
  C3 (as amended). Keyword ranking is stable with respect to the list that the variation
  generator returns, which is its set of candidates listed by \<open>set_order\<close>: for every
  score \<open>s\<close>, the selected keywords with score \<open>s\<close> are, in the same order, the
  first ones with that score of that list. The selection is sorted by score, highest
  first, and has at most 4 entries.
\<close>

theorem ranking_stable:
  "prefix (filter (\<lambda>k. seo_score k = s) (fst (research_seo_keywords set_order st p)))
          (filter (\<lambda>k. seo_score k = s)
             (analyze_keywords
                (set_order (keyword_variations (findall_words (lower (title p)))
                   (category p))))) \<and>
   sorted_wrt (\<lambda>a b. seo_score b \<le> seo_score a) (fst (research_seo_keywords set_order st p)) \<and>
   length (fst (research_seo_keywords set_order st p)) \<le> 4"
proof -
  let ?gen = "analyze_keywords
                (set_order (keyword_variations (findall_words (lower (title p)))
                   (category p)))"
  have top: "fst (research_seo_keywords set_order st p) = take 4 (sorted_reverse seo_score ?gen)"
    by (simp add: research_seo_keywords_def generate_keyword_variations_def Let_def)
  have "prefix (filter (\<lambda>k. seo_score k = s) (take 4 (sorted_reverse seo_score ?gen)))
          (filter (\<lambda>k. seo_score k = s) (sorted_reverse seo_score ?gen))"
    by (rule filter_take_prefix)
  then have 1: "prefix (filter (\<lambda>k. seo_score k = s) (take 4 (sorted_reverse seo_score ?gen)))
          (filter (\<lambda>k. seo_score k = s) ?gen)"
    by (simp only: sorted_reverse_stable)
  have 2: "sorted_wrt (\<lambda>a b. seo_score b \<le> seo_score a) (take 4 (sorted_reverse seo_score ?gen))"
    by (rule sorted_wrt_take) (rule sorted_reverse_descending)
  show ?thesis
    unfolding top using 1 2 by simp
qed

text \<open>C3 as stated fails: the order of generation is lost when the set of candidates is
  listed. For the product \<open>wireless_lamp\<close> the generator produces \<open>best wireless\<close>,
  \<open>wireless best\<close>, \<open>top wireless\<close> and \<open>wireless top\<close> in this order, all with
  score 68, the highest. When the set is listed in the reverse of the order of generation,
  the selection has them in the reverse order.\<close>

theorem ranking_generation_order_counterexample:
  "keyword_variations (findall_words (lower (title wireless_lamp))) (category wireless_lamp) =
     [''wireless'', ''best wireless'', ''wireless best'', ''top wireless'', ''wireless top'',
      ''buy wireless'', ''wireless buy'', ''affordable wireless'', ''wireless affordable'',
      ''price wireless'', ''wireless price'', ''sale wireless'', ''wireless sale'',
      ''2025 wireless'', ''wireless 2025'', ''new wireless'', ''wireless new'',
      ''wireless home office''] \<and>
   map (\<lambda>k. (keyword k, seo_score k)) (fst (research_seo_keywords rev init_pipeline wireless_lamp)) =
     [(''wireless top'', 68), (''top wireless'', 68), (''wireless best'', 68),
      (''best wireless'', 68)]"
  by code_simp

subsection \<open>Rendering\<close>

declare re_sub_heading.simps [simp del]

lemma replace_chars: "set (replace old new s) \<subseteq> set s \<union> set new"
proof (induction old new s rule: replace.induct)
  case (1 old new)
  then show ?case by auto
next
  case (2 old new c cs)
  have "set (drop (length old) (c # cs)) \<subseteq> set (c # cs)" by (rule set_drop_subset)
  with 2 show ?case by (auto split: if_splits)
qed

lemma replace_pass:
  "old \<noteq> [] \<Longrightarrow> hd old \<notin> set a \<Longrightarrow> replace old new (a @ b) = a @ replace old new b"
proof (induction a)
  case Nil
  then show ?case by simp
next
  case (Cons x a)
  then obtain o1 os where old: "old = o1 # os" by (cases old) auto
  with Cons.prems have "x \<noteq> o1" by auto
  then have "\<not> prefix old ((x # a) @ b)" by (simp add: old)
  with Cons show ?case by simp
qed

lemma replace_hit:
  "old \<noteq> [] \<Longrightarrow> replace old new (old @ b) = new @ replace old new b"
  by (cases old) simp_all

lemma re_sub_delim_id: "c \<notin> set s \<Longrightarrow> re_sub_delim (c # d) tag s = s"
  by (induction s) auto

lemma sub_heading_line_id: "c \<notin> set line \<Longrightarrow> sub_heading_line (c # m) tag line = line"
  by (cases line) (auto simp: sub_heading_line_def)

lemma re_sub_heading_id: "c \<notin> set s \<Longrightarrow> re_sub_heading (c # m) tag s = s"
proof (induction "c # m" tag s rule: re_sub_heading.induct)
  case (1 tag s)
  let ?P = "\<lambda>d. d \<noteq> newline"
  have line: "sub_heading_line (c # m) tag (takeWhile ?P s) = takeWhile ?P s"
    using "1.prems" by (intro sub_heading_line_id) (auto dest: set_takeWhileD)
  show ?case
  proof (cases "dropWhile ?P s")
    case Nil
    have tw: "takeWhile ?P s = s"
      using takeWhile_dropWhile_id [of ?P s] Nil by simp
    have "re_sub_heading (c # m) tag s = sub_heading_line (c # m) tag (takeWhile ?P s)"
      by (subst re_sub_heading.simps) (simp only: Nil list.case)
    then show ?thesis
      using line tw by simp
  next
    case (Cons nl rest)
    have "set rest \<subseteq> set (dropWhile ?P s)" using Cons by auto
    then have "c \<notin> set rest" using "1.prems" by (auto dest: set_dropWhileD)
    then have "re_sub_heading (c # m) tag rest = rest" using "1.hyps" Cons by simp
    then have "re_sub_heading (c # m) tag s = takeWhile ?P s @ nl # rest"
      using line Cons by (subst re_sub_heading.simps) simp
    also have "\<dots> = takeWhile ?P s @ dropWhile ?P s" using Cons by simp
    finally show ?thesis by simp
  qed
qed


lemma ord_char_of: "n < 256 \<Longrightarrow> ord (char_of n) = n"
  by (simp add: ord_def)

lemma lower_char_other:
  assumes "\<not> is_alpha c"
  shows "(lower_char d = c) = (d = c)"
proof (cases "is_upper d")
  case True
  then have "ord d + 32 < 256" by (simp add: is_upper_def)
  then have "ord (lower_char d) = ord d + 32"
    using True by (simp add: lower_char_def ord_char_of)
  with True have "is_alpha (lower_char d)" "is_alpha d"
    by (simp_all add: is_alpha_def is_upper_def is_lower_def)
  with assms have "lower_char d \<noteq> c" "d \<noteq> c" by auto
  then show ?thesis by simp
next
  case False
  then show ?thesis by (simp add: lower_char_def)
qed

lemma upper_char_other:
  assumes "\<not> is_alpha c"
  shows "(upper_char d = c) = (d = c)"
proof (cases "is_lower d")
  case True
  then have "ord d - 32 < 256" unfolding is_lower_def by arith
  then have "ord (upper_char d) = ord d - 32"
    using True by (simp add: upper_char_def ord_char_of)
  moreover have "65 \<le> ord d - 32 \<and> ord d - 32 \<le> 90"
    using True unfolding is_lower_def by arith
  ultimately have "is_alpha (upper_char d)"
    by (simp add: is_alpha_def is_upper_def)
  moreover have "is_alpha d"
    using True by (simp add: is_alpha_def)
  ultimately have "is_alpha (upper_char d)" "is_alpha d" by simp_all
  with assms have "upper_char d \<noteq> c" "d \<noteq> c" by auto
  then show ?thesis by simp
next
  case False
  then show ?thesis by (simp add: upper_char_def)
qed

lemma lower_chars:
  assumes "\<not> is_alpha c"
  shows "(c \<in> set (lower s)) = (c \<in> set s)"
proof -
  have "(c \<in> set (lower s)) = (\<exists>d\<in>set s. lower_char d = c)"
    by (auto simp: lower_def)
  also have "\<dots> = (c \<in> set s)"
    by (simp add: lower_char_other [OF assms])
  finally show ?thesis .
qed

lemma title_acc_chars:
  assumes "\<not> is_alpha c"
  shows "(c \<in> set (title_acc b s)) = (c \<in> set s)"
proof (induction s arbitrary: b)
  case Nil
  then show ?case by simp
next
  case (Cons d s)
  have "(c = lower_char d) = (c = d)" "(c = upper_char d) = (c = d)"
    using lower_char_other [OF assms, of d] upper_char_other [OF assms, of d] by auto
  with Cons show ?case by simp
qed

lemma title_case_chars: "\<not> is_alpha c \<Longrightarrow> (c \<in> set (title_case s)) = (c \<in> set s)"
  by (simp add: title_case_def title_acc_chars)

lemma title_case_starts:
  assumes "\<not> is_alpha c"
  shows "prefix [c] (title_case s) = prefix [c] s"
proof (cases s)
  case Nil
  then show ?thesis by (simp add: title_case_def)
next
  case (Cons d ds)
  have "(c = upper_char d) = (c = d)"
    using upper_char_other [OF assms, of d] by auto
  with Cons assms show ?thesis by (auto simp: title_case_def)
qed

lemma not_alpha_markup:
  "\<not> is_alpha CHR ''#''" "\<not> is_alpha CHR ''*''" "\<not> is_alpha CHR ''<''" "\<not> is_alpha newline"
  by (simp_all add: is_alpha_def is_upper_def is_lower_def ord_def newline_def)

text \<open>The first pass on a text that begins with the marker of a level-1 heading.\<close>

lemma re_sub_heading_first_line:
  assumes "CHR ''#'' \<notin> set rest" and "rest \<noteq> []" and "\<not> prefix [newline] rest"
  shows "re_sub_heading ''#'' ''h1'' (''# '' @ rest)
           = ''<h1>'' @ takeWhile (\<lambda>c. c \<noteq> newline) rest @ ''</h1>''
               @ dropWhile (\<lambda>c. c \<noteq> newline) rest"
proof -
  let ?P = "\<lambda>c. c \<noteq> newline"
  let ?l = "takeWhile ?P rest"
  have nl: "?P CHR ''#''" "?P CHR '' ''" by (simp_all add: newline_def)
  have tw: "takeWhile ?P (''# '' @ rest) = ''# '' @ ?l"
    and dw: "dropWhile ?P (''# '' @ rest) = dropWhile ?P rest"
    using nl by simp_all
  from assms(2,3) have l: "?l \<noteq> []" by (cases rest) auto
  then have line: "sub_heading_line ''#'' ''h1'' (''# '' @ ?l) = ''<h1>'' @ ?l @ ''</h1>''"
    by (simp add: sub_heading_line_def)
  show ?thesis
  proof (cases "dropWhile ?P rest")
    case Nil
    have "re_sub_heading ''#'' ''h1'' (''# '' @ rest) = sub_heading_line ''#'' ''h1'' (''# '' @ ?l)"
      by (subst re_sub_heading.simps) (simp only: dw tw Nil list.case)
    also have "\<dots> = ''<h1>'' @ ?l @ ''</h1>''" by (rule line)
    also have "\<dots> = ''<h1>'' @ ?l @ ''</h1>'' @ dropWhile ?P rest"
      by (simp only: Nil append_Nil2)
    finally show ?thesis .
  next
    case (Cons x r)
    have "set r \<subseteq> set rest" using Cons set_dropWhileD [of _ ?P rest] by auto
    then have "CHR ''#'' \<notin> set r" using assms(1) by auto
    then have r: "re_sub_heading ''#'' ''h1'' r = r" by (rule re_sub_heading_id)
    have "re_sub_heading ''#'' ''h1'' (''# '' @ rest)
            = sub_heading_line ''#'' ''h1'' (''# '' @ ?l) @ x # re_sub_heading ''#'' ''h1'' r"
      by (subst re_sub_heading.simps) (simp only: dw tw Cons list.case)
    also have "\<dots> = (''<h1>'' @ ?l @ ''</h1>'') @ x # r" by (simp only: line r)
    also have "\<dots> = ''<h1>'' @ ?l @ ''</h1>'' @ dropWhile ?P rest"
      by (simp only: Cons append_assoc)
    finally show ?thesis .
  qed
qed


lemma replace_avoid: "c \<notin> set s \<Longrightarrow> c \<notin> set new \<Longrightarrow> c \<notin> set (replace old new s)"
  using replace_chars [of old new s] by auto

lemma nth_of_three:
  assumes "length ts = 3"
  shows "ts ! nat (h mod int (length ts)) \<in> set ts"
proof -
  have "0 \<le> h mod 3" "h mod 3 < 3" by simp_all
  then have "nat (h mod 3) < 3" by linarith
  then show ?thesis using assms by simp
qed

lemma markup_cases:
  assumes "c \<in> set [CHR ''#'', CHR ''*'', CHR ''<'', newline]"
  obtains "c = CHR ''#''" | "c = CHR ''*''" | "c = CHR ''<''" | "c = CHR 0x0A"
  using assms by (auto simp: newline_def)

lemma headline_templates_form:
  assumes "t \<in> set (headline_templates n k)"
  obtains hd_text where "t = ''# '' @ hd_text" "hd_text \<noteq> []"
    "\<not> prefix [newline] n \<Longrightarrow> \<not> prefix [newline] k \<Longrightarrow> \<not> prefix [newline] hd_text"
    "\<And>c. c \<in> set [CHR ''#'', CHR ''*'', CHR ''<'', newline] \<Longrightarrow> c \<notin> set n \<Longrightarrow> c \<notin> set k
       \<Longrightarrow> c \<notin> set hd_text"
proof -
  have tc: "prefix [newline] (title_case k @ r) = (if k = [] then prefix [newline] r else prefix [newline] k)" for r
  proof (cases k)
    case Nil
    then show ?thesis by (simp add: title_case_def)
  next
    case (Cons d ds)
    then obtain x xs where x: "title_case k = x # xs"
      by (cases "title_case k") (auto simp: title_case_def split: if_splits)
    have "prefix [newline] ((x # xs) @ r) = prefix [newline] (x # xs)" by simp
    also have "\<dots> = prefix [newline] k"
      using title_case_starts [OF not_alpha_markup(4), of k] x by simp
    finally show ?thesis using Cons x by simp
  qed
  have avoid: "c \<notin> set (title_case k)"
    if "c \<in> set [CHR ''#'', CHR ''*'', CHR ''<'', newline]" "c \<notin> set k" for c
    using that not_alpha_markup by (auto simp: title_case_chars)
  from assms consider
      "t = ''# '' @ (title_case k @ '': Why '' @ n @ '' is Taking Over'')"
    | "t = ''# '' @ (n @ '' Review: The Ultimate '' @ title_case k)"
    | "t = ''# '' @ (''Discover the '' @ title_case k @ '' Everyone's Talking About'')"
    by (auto simp: headline_templates_def)
  then show thesis
  proof cases
    case 1
    show thesis
    proof (rule that [OF 1])
      show "title_case k @ '': Why '' @ n @ '' is Taking Over'' \<noteq> []" by simp
      show "\<not> prefix [newline] (title_case k @ '': Why '' @ n @ '' is Taking Over'')"
        if "\<not> prefix [newline] n" "\<not> prefix [newline] k"
      proof -
        have "newline \<noteq> CHR '':''" by (simp add: newline_def)
        with that show ?thesis by (simp add: tc)
      qed
      show "c \<notin> set (title_case k @ '': Why '' @ n @ '' is Taking Over'')"
        if "c \<in> set [CHR ''#'', CHR ''*'', CHR ''<'', newline]" "c \<notin> set n" "c \<notin> set k" for c
        using avoid [OF that(1,3)] that(2) by (rule_tac markup_cases [OF that(1)]) simp_all
    qed
  next
    case 2
    show thesis
    proof (rule that [OF 2])
      show "n @ '' Review: The Ultimate '' @ title_case k \<noteq> []" by simp
      show "\<not> prefix [newline] (n @ '' Review: The Ultimate '' @ title_case k)"
        if "\<not> prefix [newline] n" "\<not> prefix [newline] k"
        using that by (cases n) (simp_all add: newline_def)
      show "c \<notin> set (n @ '' Review: The Ultimate '' @ title_case k)"
        if "c \<in> set [CHR ''#'', CHR ''*'', CHR ''<'', newline]" "c \<notin> set n" "c \<notin> set k" for c
        using avoid [OF that(1,3)] that(2) by (rule_tac markup_cases [OF that(1)]) simp_all
    qed
  next
    case 3
    show thesis
    proof (rule that [OF 3])
      show "''Discover the '' @ title_case k @ '' Everyone's Talking About'' \<noteq> []" by simp
      show "\<not> prefix [newline] (''Discover the '' @ title_case k @ '' Everyone's Talking About'')"
        by (simp add: newline_def)
      show "c \<notin> set (''Discover the '' @ title_case k @ '' Everyone's Talking About'')"
        if "c \<in> set [CHR ''#'', CHR ''*'', CHR ''<'', newline]" "c \<notin> set k" for c
        using avoid [OF that] by (rule_tac markup_cases [OF that(1)]) simp_all
    qed
  qed
qed


lemma not_alpha_lf: "\<not> is_alpha CHR 0x0A"
  by (simp add: is_alpha_def is_upper_def is_lower_def ord_def)

lemma intro_templates_avoid:
  assumes "c \<in> set [CHR ''#'', CHR ''*'', CHR ''<'', newline]"
    and "c \<notin> set (title p)" "c \<notin> set (rating p)" "c \<notin> set (reviews p)"
        "c \<notin> set (category p)" "c \<notin> set k0" "c \<notin> set k1"
    and "t \<in> set (intro_templates p k0 k1)"
  shows "c \<notin> set t"
  using assms(2-)
  by (rule_tac markup_cases [OF assms(1)])
     (auto simp: intro_templates_def en_dash_def lower_chars not_alpha_markup not_alpha_lf)

lemma intro_templates_nonempty: "t \<in> set (intro_templates p k0 k1) \<Longrightarrow> t \<noteq> []"
  by (auto simp: intro_templates_def)

lemma body_avoid:
  assumes "c \<in> set [CHR ''#'', CHR ''*'', CHR ''<'', newline]"
    and "c \<notin> set (description p)" "c \<notin> set (price p)" "c \<notin> set (category p)"
        "c \<notin> set k1" "c \<notin> set k2" "c \<notin> set k3"
  shows "c \<notin> set (join '' '' (body_parts p k1 k2 k3))"
  using assms(2-)
  by (rule_tac markup_cases [OF assms(1)])
     (auto simp: body_parts_def lower_chars not_alpha_markup not_alpha_lf)

lemma body_nonempty: "join '' '' (body_parts p k1 k2 k3) \<noteq> []"
  by (simp add: body_parts_def)

lemma ctas_avoid:
  assumes "c \<in> set [CHR ''#'', CHR ''*'', CHR ''<'', newline]"
    and "c \<notin> set n" "c \<notin> set k"
    and "t \<in> set (ctas n k)"
  shows "c \<notin> set t"
  using assms(2-)
  by (rule_tac markup_cases [OF assms(1)]) (auto simp: ctas_def)

lemma ctas_nonempty: "t \<in> set (ctas n k) \<Longrightarrow> t \<noteq> []"
  by (auto simp: ctas_def)


lemma render_marked_text:
  assumes "CHR ''#'' \<notin> set rest" and "CHR ''*'' \<notin> set rest"
    and "rest \<noteq> []" and "\<not> prefix [newline] rest"
  shows "CHR ''#'' \<notin> set (markdown_to_html (''# '' @ rest)) \<and>
         CHR ''*'' \<notin> set (markdown_to_html (''# '' @ rest)) \<and>
         prefix ''<h1>'' (markdown_to_html (''# '' @ rest))"
proof -
  let ?P = "\<lambda>c. c \<noteq> newline"
  define x where "x = takeWhile ?P rest @ ''</h1>'' @ dropWhile ?P rest"
  have sub: "set x \<subseteq> set rest \<union> set ''</h1>''"
    using set_takeWhileD [of _ ?P rest] set_dropWhileD [of _ ?P rest] by (auto simp: x_def)
  have x: "CHR ''#'' \<notin> set x" "CHR ''*'' \<notin> set x"
    using sub assms(1,2) by auto
  have h1: "re_sub_heading ''#'' ''h1'' (''# '' @ rest) = ''<h1>'' @ x"
    using re_sub_heading_first_line [OF assms(1,3,4)] by (simp add: x_def)
  have x1: "CHR ''#'' \<notin> set (''<h1>'' @ x)" "CHR ''*'' \<notin> set (''<h1>'' @ x)"
    using x by simp_all
  have h2: "re_sub_heading ''##'' ''h2'' (''<h1>'' @ x) = ''<h1>'' @ x"
    using x1(1) by (rule re_sub_heading_id)
  have st: "re_sub_delim ''**'' ''strong'' (''<h1>'' @ x) = ''<h1>'' @ x"
    using x1(2) by (rule re_sub_delim_id)
  have em: "re_sub_delim ''*'' ''em'' (''<h1>'' @ x) = ''<h1>'' @ x"
    using x1(2) by (rule re_sub_delim_id)
  define y where "y = replace [newline, newline] ''</p><p>'' x @ ''</p>''"
  have y: "CHR ''#'' \<notin> set y" "CHR ''*'' \<notin> set y"
    using x by (simp_all add: y_def replace_avoid)
  have par: "''<p>'' @ replace [newline, newline] ''</p><p>'' (''<h1>'' @ x) @ ''</p>''
               = ''<p><h1>'' @ y"
    by (simp add: y_def newline_def)
  define z where "z = replace ''</h2></p>'' ''</h2>'' (replace ''<p><h2>'' ''<h2>''
      (replace ''</h1></p>'' ''</h1>'' (replace ''<p><h1>'' ''<h1>'' y)))"
  have z: "CHR ''#'' \<notin> set z" "CHR ''*'' \<notin> set z"
    using y by (simp_all add: z_def replace_avoid)
  have "markdown_to_html (''# '' @ rest) = replace ''</h2></p>'' ''</h2>'' (replace ''<p><h2>'' ''<h2>''
      (replace ''</h1></p>'' ''</h1>'' (replace ''<p><h1>'' ''<h1>'' (''<p><h1>'' @ y))))"
    by (simp only: markdown_to_html_def Let_def h1 h2 st em par)
  also have "\<dots> = ''<h1>'' @ z"
    by (simp add: z_def)
  finally have out: "markdown_to_html (''# '' @ rest) = ''<h1>'' @ z" .
  show ?thesis
    unfolding out using z by simp
qed


lemma not_prefix_block:
  "c \<notin> set s \<Longrightarrow> s \<noteq> [] \<Longrightarrow> \<not> prefix (c # m) (s @ r)"
  by (cases s) auto

lemma replace_none: "old \<noteq> [] \<Longrightarrow> hd old \<notin> set a \<Longrightarrow> replace old new a = a"
  using replace_pass [of old a new "[]"] by simp

lemma render_blocks:
  assumes h: "h \<noteq> []" "CHR ''#'' \<notin> set h" "CHR ''*'' \<notin> set h" "CHR ''<'' \<notin> set h" "newline \<notin> set h"
    and i: "i \<noteq> []" "CHR ''#'' \<notin> set i" "CHR ''*'' \<notin> set i" "CHR ''<'' \<notin> set i" "newline \<notin> set i"
    and b: "b \<noteq> []" "CHR ''#'' \<notin> set b" "CHR ''*'' \<notin> set b" "CHR ''<'' \<notin> set b" "newline \<notin> set b"
    and c: "c \<noteq> []" "CHR ''#'' \<notin> set c" "CHR ''*'' \<notin> set c" "CHR ''<'' \<notin> set c" "newline \<notin> set c"
  shows "markdown_to_html (''# '' @ h @ [newline, newline] @ i @ [newline, newline] @ b
           @ [newline, newline] @ c)
         = ''<h1>'' @ h @ ''</h1><p>'' @ i @ ''</p><p>'' @ b @ ''</p><p>'' @ c @ ''</p>''"
proof -
  let ?P = "\<lambda>c. c \<noteq> newline"
  let ?nn = "[newline, newline]"
  define t where "t = ?nn @ i @ ?nn @ b @ ?nn @ c"
  define rest where "rest = h @ t"
  have hP: "?P d" if "d \<in> set h" for d
    using that h(5) by auto
  have tw: "takeWhile ?P rest = h" and dw: "dropWhile ?P rest = t"
    using takeWhile_append2 [of h ?P t, OF hP] dropWhile_append2 [of h ?P t, OF hP]
    by (simp_all add: rest_def t_def)
  have r1: "CHR ''#'' \<notin> set rest" "CHR ''*'' \<notin> set rest"
    using h i b c by (simp_all add: rest_def t_def newline_def)
  have r2: "rest \<noteq> []" "\<not> prefix [newline] rest"
    using h(1,5) by (cases h; simp add: rest_def)+
  define x where "x = h @ ''</h1>'' @ t"
  have h1: "re_sub_heading ''#'' ''h1'' (''# '' @ rest) = ''<h1>'' @ x"
    using re_sub_heading_first_line [OF r1(1) r2] by (simp add: tw dw x_def)
  have x1: "CHR ''#'' \<notin> set (''<h1>'' @ x)" "CHR ''*'' \<notin> set (''<h1>'' @ x)"
    using h i b c by (simp_all add: x_def t_def newline_def)
  have h2: "re_sub_heading ''##'' ''h2'' (''<h1>'' @ x) = ''<h1>'' @ x"
    using x1(1) by (rule re_sub_heading_id)
  have st: "re_sub_delim ''**'' ''strong'' (''<h1>'' @ x) = ''<h1>'' @ x"
    using x1(2) by (rule re_sub_delim_id)
  have em: "re_sub_delim ''*'' ''em'' (''<h1>'' @ x) = ''<h1>'' @ x"
    using x1(2) by (rule re_sub_delim_id)
  have nl: "newline \<noteq> CHR ''<''" "newline \<noteq> CHR ''/''" "newline \<noteq> CHR ''h''"
    "newline \<noteq> CHR ''1''" "newline \<noteq> CHR ''>''" "newline \<noteq> CHR ''p''"
    by (simp_all add: newline_def)
  have par: "replace ?nn ''</p><p>'' (''<h1>'' @ x)
               = ''<h1>'' @ h @ ''</h1></p><p>'' @ i @ ''</p><p>'' @ b @ ''</p><p>'' @ c"
    using h(5) i(5) b(5) c(5) nl
    by (simp add: x_def t_def replace_pass replace_none)
  have s1: "replace ''<p><h1>'' ''<h1>''
              (''<p>'' @ (''<h1>'' @ h @ ''</h1></p><p>'' @ i @ ''</p><p>'' @ b @ ''</p><p>'' @ c) @ ''</p>'')
            = ''<h1>'' @ h @ ''</h1></p><p>'' @ i @ ''</p><p>'' @ b @ ''</p><p>'' @ c @ ''</p>''"
    using h(4) i(1,4) b(1,4) c(1,4)
    by (simp add: replace_pass not_prefix_block)
  have s2: "replace ''</h1></p>'' ''</h1>''
              (''<h1>'' @ h @ ''</h1></p><p>'' @ i @ ''</p><p>'' @ b @ ''</p><p>'' @ c @ ''</p>'')
            = ''<h1>'' @ h @ ''</h1><p>'' @ i @ ''</p><p>'' @ b @ ''</p><p>'' @ c @ ''</p>''"
    using h(4) i(1,4) b(1,4) c(1,4)
    by (simp add: replace_pass not_prefix_block)
  have s3: "replace ''<p><h2>'' ''<h2>''
              (''<h1>'' @ h @ ''</h1><p>'' @ i @ ''</p><p>'' @ b @ ''</p><p>'' @ c @ ''</p>'')
            = ''<h1>'' @ h @ ''</h1><p>'' @ i @ ''</p><p>'' @ b @ ''</p><p>'' @ c @ ''</p>''"
    using h(4) i(1,4) b(1,4) c(1,4)
    by (simp add: replace_pass not_prefix_block)
  have s4: "replace ''</h2></p>'' ''</h2>''
              (''<h1>'' @ h @ ''</h1><p>'' @ i @ ''</p><p>'' @ b @ ''</p><p>'' @ c @ ''</p>'')
            = ''<h1>'' @ h @ ''</h1><p>'' @ i @ ''</p><p>'' @ b @ ''</p><p>'' @ c @ ''</p>''"
    using h(4) i(1,4) b(1,4) c(1,4)
    by (simp add: replace_pass not_prefix_block)
  have "markdown_to_html (''# '' @ rest)
          = ''<h1>'' @ h @ ''</h1><p>'' @ i @ ''</p><p>'' @ b @ ''</p><p>'' @ c @ ''</p>''"
    by (simp only: markdown_to_html_def Let_def h1 h2 st em par s1 s2 s3 s4)
  then show ?thesis by (simp only: rest_def t_def)
qed


lemma structured_content_four:
  "generate_structured_content hash p (k0 # k1 # k2 # k3 # ks) =
     Inr (generate_headline hash (title p) k0 @ [newline, newline]
          @ intro_templates p k0 k1 ! nat (hash (title p) mod int (length (intro_templates p k0 k1)))
          @ [newline, newline] @ join '' '' (body_parts p k1 k2 k3) @ [newline, newline]
          @ generate_cta hash (title p) k0)"
  by (simp add: generate_structured_content_def generate_intro_def generate_body_def
        index_def Let_def)

lemma four_keywords_form:
  assumes "4 \<le> length ks"
  obtains k0 k1 k2 k3 r where "ks = k0 # k1 # k2 # k3 # r"
proof -
  from assms obtain k0 r0 where 0: "ks = k0 # r0" by (cases ks) auto
  with assms obtain k1 r1 where 1: "r0 = k1 # r1" by (cases r0) auto
  with 0 assms obtain k2 r2 where 2: "r1 = k2 # r2" by (cases r1) auto
  with 0 1 assms obtain k3 r3 where 3: "r2 = k3 # r3" by (cases r2) auto
  from 0 1 2 3 show thesis by (intro that) simp
qed

lemma fields_avoid_iff:
  "fields_avoid cs p (k0 # k1 # k2 # k3 # r) =
     (\<forall>c\<in>set cs. c \<notin> set (title p) \<and> c \<notin> set (price p) \<and> c \<notin> set (rating p) \<and>
        c \<notin> set (reviews p) \<and> c \<notin> set (category p) \<and> c \<notin> set (description p) \<and>
        c \<notin> set k0 \<and> c \<notin> set k1 \<and> c \<notin> set k2 \<and> c \<notin> set k3)"
  by (auto simp: fields_avoid_def list_all_iff)

text \<open>
  C7 (as amended). Take content that the templater assembled from a product and keywords
  in which the characters \<open>#\<close> and \<open>*\<close> do not occur (in title, price, rating,
  reviews, category, description and the four keywords used), and where neither the title
  nor the first keyword begins with a line feed. Rendered to HTML it contains no
  \<open>#\<close> and no \<open>*\<close>, and it begins with the heading element, not with a
  paragraph. If the fields contain no \<open><\<close> and no line feed either, the output is
  exactly the heading element followed by the three paragraphs: \<open><h1>\<close> headline
  \<open></h1><p>\<close> intro \<open></p><p>\<close> body \<open></p><p>\<close> call to action
  \<open></p>\<close>.
\<close>

theorem rendered_content_has_no_markers:
  assumes gen: "generate_structured_content hash p kws = Inr content"
    and clean: "fields_avoid ''#*'' p kws"
    and start: "\<not> prefix [newline] (title p)" "\<not> prefix [newline] (kws ! 0)"
  shows "CHR ''#'' \<notin> set (markdown_to_html content) \<and>
         CHR ''*'' \<notin> set (markdown_to_html content) \<and>
         prefix ''<h1>'' (markdown_to_html content) \<and>
         (fields_avoid [CHR ''<'', newline] p kws \<longrightarrow>
            (\<exists>intro body.
               generate_intro hash p kws = Inr intro \<and> generate_body p kws = Inr body \<and>
               markdown_to_html content =
                 ''<h1>'' @ drop 2 (generate_headline hash (title p) (kws ! 0)) @ ''</h1><p>''
                   @ intro @ ''</p><p>'' @ body @ ''</p><p>''
                   @ generate_cta hash (title p) (kws ! 0) @ ''</p>''))"
proof -
  let ?nn = "[newline, newline]"
  have "\<not> length kws < 4"
    using gen structured_content_short [of kws hash p] by auto
  then have "4 \<le> length kws" by simp
  then obtain k0 k1 k2 k3 r where kws: "kws = k0 # k1 # k2 # k3 # r"
    by (rule four_keywords_form)
  define hl where "hl = generate_headline hash (title p) k0"
  define i where "i = intro_templates p k0 k1 ! nat (hash (title p) mod int (length (intro_templates p k0 k1)))"
  define b where "b = join '' '' (body_parts p k1 k2 k3)"
  define c where "c = generate_cta hash (title p) k0"
  have content: "content = hl @ ?nn @ i @ ?nn @ b @ ?nn @ c"
    using gen unfolding kws structured_content_four hl_def i_def b_def c_def by simp
  have gi: "generate_intro hash p kws = Inr i" and gb: "generate_body p kws = Inr b"
    by (simp_all add: kws generate_intro_def generate_body_def index_def Let_def i_def b_def)
  have "hl \<in> set (headline_templates (title p) k0)"
    unfolding hl_def generate_headline_def Let_def
    by (rule nth_of_three) (simp add: headline_templates_def)
  then obtain h where hl: "hl = ''# '' @ h" and h0: "h \<noteq> []"
    and hs: "\<not> prefix [newline] (title p) \<Longrightarrow> \<not> prefix [newline] k0 \<Longrightarrow> \<not> prefix [newline] h"
    and ha: "\<And>d. d \<in> set [CHR ''#'', CHR ''*'', CHR ''<'', newline] \<Longrightarrow> d \<notin> set (title p)
                \<Longrightarrow> d \<notin> set k0 \<Longrightarrow> d \<notin> set h"
    by (rule headline_templates_form) blast
  have it: "i \<in> set (intro_templates p k0 k1)"
    unfolding i_def by (rule nth_of_three) (simp add: intro_templates_def)
  have ct: "c \<in> set (ctas (title p) k0)"
    unfolding c_def generate_cta_def Let_def by (rule nth_of_three) (simp add: ctas_def)
  have ne: "i \<noteq> []" "b \<noteq> []" "c \<noteq> []"
    using it ct by (simp_all add: intro_templates_nonempty ctas_nonempty b_def body_nonempty)
  have avoid: "d \<notin> set h \<and> d \<notin> set i \<and> d \<notin> set b \<and> d \<notin> set c"
    if d: "d \<in> set [CHR ''#'', CHR ''*'', CHR ''<'', newline]" and f: "fields_avoid [d] p kws" for d
  proof -
    from f have f': "d \<notin> set (title p)" "d \<notin> set (price p)" "d \<notin> set (rating p)"
      "d \<notin> set (reviews p)" "d \<notin> set (category p)" "d \<notin> set (description p)"
      "d \<notin> set k0" "d \<notin> set k1" "d \<notin> set k2" "d \<notin> set k3"
      by (simp_all add: kws fields_avoid_iff)
    show ?thesis
      using ha [OF d f'(1,7)] intro_templates_avoid [OF d f'(1,3,4,5,7,8) it]
        body_avoid [OF d f'(6,2,5,8,9,10)] ctas_avoid [OF d f'(1,7) ct]
      by (simp add: b_def)
  qed
  have split2: "fields_avoid [x, y] p kws = (fields_avoid [x] p kws \<and> fields_avoid [y] p kws)" for x y
    by (auto simp: kws fields_avoid_iff)
  from clean have "fields_avoid ''#'' p kws" "fields_avoid ''*'' p kws"
    by (simp_all add: split2)
  then have hash: "CHR ''#'' \<notin> set h \<and> CHR ''#'' \<notin> set i \<and> CHR ''#'' \<notin> set b \<and> CHR ''#'' \<notin> set c"
    and star: "CHR ''*'' \<notin> set h \<and> CHR ''*'' \<notin> set i \<and> CHR ''*'' \<notin> set b \<and> CHR ''*'' \<notin> set c"
    using avoid [of "CHR ''#''"] avoid [of "CHR ''*''"] by simp_all
  define rest where "rest = h @ ?nn @ i @ ?nn @ b @ ?nn @ c"
  have rest: "content = ''# '' @ rest"
    by (simp add: content hl rest_def)
  have r1: "CHR ''#'' \<notin> set rest" "CHR ''*'' \<notin> set rest"
    using hash star by (simp_all add: rest_def newline_def)
  have r2: "rest \<noteq> []" "\<not> prefix [newline] rest"
    using h0 hs start by (cases h; simp add: rest_def kws)+
  note weak = render_marked_text [OF r1 r2, folded rest]
  have strong: "\<exists>intro body.
               generate_intro hash p kws = Inr intro \<and> generate_body p kws = Inr body \<and>
               markdown_to_html content =
                 ''<h1>'' @ drop 2 (generate_headline hash (title p) (kws ! 0)) @ ''</h1><p>''
                   @ intro @ ''</p><p>'' @ body @ ''</p><p>''
                   @ generate_cta hash (title p) (kws ! 0) @ ''</p>''"
    if "fields_avoid [CHR ''<'', newline] p kws"
  proof -
    from that have "fields_avoid ''<'' p kws" "fields_avoid [newline] p kws"
      by (simp_all add: split2)
    then have lt: "CHR ''<'' \<notin> set h \<and> CHR ''<'' \<notin> set i \<and> CHR ''<'' \<notin> set b \<and> CHR ''<'' \<notin> set c"
      and lf: "newline \<notin> set h \<and> newline \<notin> set i \<and> newline \<notin> set b \<and> newline \<notin> set c"
      using avoid [of "CHR ''<''"] avoid [of newline] by simp_all
    have "markdown_to_html (''# '' @ h @ ?nn @ i @ ?nn @ b @ ?nn @ c)
            = ''<h1>'' @ h @ ''</h1><p>'' @ i @ ''</p><p>'' @ b @ ''</p><p>'' @ c @ ''</p>''"
      using h0 ne hash star lt lf by (intro render_blocks) simp_all
    then have "markdown_to_html content
            = ''<h1>'' @ drop 2 hl @ ''</h1><p>'' @ i @ ''</p><p>'' @ b @ ''</p><p>'' @ c @ ''</p>''"
      by (simp add: rest rest_def hl)
    with gi gb show ?thesis
      by (simp add: hl_def c_def kws)
  qed
  from weak strong show ?thesis by blast
qed


lemma count_char_append: "count_char c (a @ b) = count_char c a + count_char c b"
  by (simp add: count_char_def)

lemma count_char_Cons: "count_char c (x # a) = (if x = c then 1 else 0) + count_char c a"
  by (simp add: count_char_def)

lemma count_char_notin: "c \<notin> set a \<Longrightarrow> count_char c a = 0"
  by (simp add: count_char_zero)

lemma count_char_split:
  "count_char c s = count_char c (takeWhile P s) + count_char c (dropWhile P s)"
  using count_char_append [of c "takeWhile P s" "dropWhile P s"] by simp

lemma find_close_decomp:
  "find_close d inner s = Some (g, rest) \<Longrightarrow> inner @ s = g @ d @ rest"
proof (induction s arbitrary: inner)
  case Nil
  then show ?case by simp
next
  case (Cons c cs)
  from Cons.prems have nl: "c \<noteq> newline" by (auto split: if_splits)
  show ?case
  proof (cases "prefix d cs")
    case True
    then have "cs = d @ drop (length d) cs" by (auto simp: prefix_def)
    moreover from Cons.prems nl True have "g = inner @ [c]" "rest = drop (length d) cs"
      by simp_all
    ultimately show ?thesis by simp
  next
    case False
    with Cons.prems nl have "find_close d (inner @ [c]) cs = Some (g, rest)" by simp
    then have "(inner @ [c]) @ cs = g @ d @ rest" by (rule Cons.IH)
    then show ?thesis by simp
  qed
qed

lemma re_sub_delim_count:
  assumes "c \<notin> set (''<>/'' @ tag)"
  shows "\<exists>k. count_char c s = count_char c (re_sub_delim d tag s) + 2 * k * count_char c d"
  using assms
proof (induction d tag s rule: re_sub_delim.induct)
  case (1 d tag)
  show ?case by (simp add: count_char_def)
next
  case (2 d tag x xs)
  note c = "2.prems"
  show ?case
  proof (cases "prefix d (x # xs)")
    case False
    with "2.IH"(3) c obtain k where "count_char c xs = count_char c (re_sub_delim d tag xs) + 2 * k * count_char c d"
      by blast
    with False show ?thesis by (auto simp: count_char_Cons)
  next
    case True
    then have whole: "x # xs = d @ drop (length d) (x # xs)" by (auto simp: prefix_def)
    show ?thesis
    proof (cases "find_close d [] (drop (length d) (x # xs))")
      case None
      with "2.IH"(1) True c obtain k where "count_char c xs = count_char c (re_sub_delim d tag xs) + 2 * k * count_char c d"
        by blast
      with True None show ?thesis by (auto simp: count_char_Cons)
    next
      case (Some gr)
      obtain g rest where gr: "gr = (g, rest)" by (cases gr)
      from Some gr have "drop (length d) (x # xs) = g @ d @ rest"
        using find_close_decomp [of d "[]" "drop (length d) (x # xs)" g rest] by simp
      with whole have "x # xs = d @ g @ d @ rest" by simp
      then have cnt: "count_char c (x # xs) = 2 * count_char c d + count_char c g + count_char c rest"
        by (simp add: count_char_append)
      from "2.IH"(2) [OF True Some gr [symmetric] c] obtain k
        where k: "count_char c rest = count_char c (re_sub_delim d tag rest) + 2 * k * count_char c d"
        by blast
      define op where "op = ''<'' @ tag @ ''>''"
      define cl where "cl = ''</'' @ tag @ ''>''"
      have tags: "count_char c op = 0" "count_char c cl = 0"
        using c by (auto simp: op_def cl_def count_char_zero)
      have "re_sub_delim d tag (x # xs) = op @ g @ cl @ re_sub_delim d tag rest"
        using True Some gr by (simp add: op_def cl_def)
      then have "count_char c (re_sub_delim d tag (x # xs))
              = count_char c g + count_char c (re_sub_delim d tag rest)"
        by (simp add: count_char_append tags)
      with cnt k have "count_char c (x # xs)
              = count_char c (re_sub_delim d tag (x # xs)) + 2 * (k + 1) * count_char c d"
        by (simp add: algebra_simps)
      then show ?thesis by blast
    qed
  qed
qed

lemma re_sub_delim_parity:
  "c \<notin> set (''<>/'' @ tag) \<Longrightarrow> odd (count_char c s) \<Longrightarrow> odd (count_char c (re_sub_delim d tag s))"
  using re_sub_delim_count [of c tag s d] by auto

lemma re_sub_delim_keeps:
  "c \<notin> set (''<>/'' @ tag) \<Longrightarrow> c \<notin> set d \<Longrightarrow> count_char c (re_sub_delim d tag s) = count_char c s"
  using re_sub_delim_count [of c tag s d] by (auto simp: count_char_notin)

lemma replace_count:
  "c \<notin> set old \<Longrightarrow> c \<notin> set new \<Longrightarrow> count_char c (replace old new s) = count_char c s"
proof (induction old new s rule: replace.induct)
  case (1 old new)
  then show ?case by (auto simp: count_char_def filter_empty_conv)
next
  case (2 old new x xs)
  show ?case
  proof (cases "old = []")
    case True
    with 2 show ?thesis by (simp add: count_char_append count_char_Cons count_char_notin)
  next
    case False
    show ?thesis
    proof (cases "prefix old (x # xs)")
      case True
      then have "x # xs = old @ drop (length old) (x # xs)" by (auto simp: prefix_def)
      then have "count_char c (x # xs) = count_char c (drop (length old) (x # xs))"
        using 2(4) count_char_append [of c old "drop (length old) (x # xs)"]
        by (simp add: count_char_notin)
      with 2 False True show ?thesis
        by (simp add: count_char_append count_char_notin)
    next
      case no: False
      with 2 False show ?thesis by (simp add: count_char_Cons)
    qed
  qed
qed

lemma sub_heading_line_count:
  "c \<notin> set (m @ '' <>/'' @ tag) \<Longrightarrow> count_char c (sub_heading_line m tag line) = count_char c line"
proof (cases "prefix (m @ '' '') line")
  case True
  assume c: "c \<notin> set (m @ '' <>/'' @ tag)"
  from True have "line = (m @ '' '') @ drop (length (m @ '' '')) line" by (auto simp: prefix_def)
  then have "count_char c line = count_char c (drop (length (m @ '' '')) line)"
    using c count_char_append [of c "m @ '' ''" "drop (length (m @ '' '')) line"]
    by (simp add: count_char_notin)
  then show ?thesis
    using c by (auto simp: sub_heading_line_def count_char_append count_char_Cons count_char_notin)
next
  case False
  then show ?thesis by (simp add: sub_heading_line_def)
qed

lemma re_sub_heading_last_line:
  "dropWhile (\<lambda>c. c \<noteq> newline) s = [] \<Longrightarrow>
     re_sub_heading m tag s = sub_heading_line m tag (takeWhile (\<lambda>c. c \<noteq> newline) s)"
  by (subst re_sub_heading.simps) (simp only: list.case)

lemma re_sub_heading_next_line:
  "dropWhile (\<lambda>c. c \<noteq> newline) s = nl # rest \<Longrightarrow>
     re_sub_heading m tag s = sub_heading_line m tag (takeWhile (\<lambda>c. c \<noteq> newline) s)
       @ nl # re_sub_heading m tag rest"
  by (subst re_sub_heading.simps) (simp only: list.case)

lemma re_sub_heading_count:
  assumes "c \<notin> set (m @ '' <>/'' @ tag)"
  shows "count_char c (re_sub_heading m tag s) = count_char c s"
  using assms
proof (induction m tag s rule: re_sub_heading.induct)
  case (1 m tag s)
  let ?P = "\<lambda>c. c \<noteq> newline"
  note line = sub_heading_line_count [OF "1.prems", of "takeWhile ?P s"]
  show ?case
  proof (cases "dropWhile ?P s")
    case Nil
    have "count_char c (re_sub_heading m tag s) = count_char c (takeWhile ?P s)"
      by (simp only: re_sub_heading_last_line [OF Nil] line)
    also have "\<dots> = count_char c s"
      using count_char_split [of c s ?P] by (simp only: Nil) (simp add: count_char_def)
    finally show ?thesis .
  next
    case (Cons nl rest)
    from "1.IH" [OF Cons "1.prems"] have ih: "count_char c (re_sub_heading m tag rest) = count_char c rest" .
    have "count_char c (re_sub_heading m tag s)
            = count_char c (takeWhile ?P s) + count_char c (nl # rest)"
      by (simp only: re_sub_heading_next_line [OF Cons] count_char_append line)
         (simp add: count_char_Cons ih)
    also have "\<dots> = count_char c s"
      using count_char_split [of c s ?P] by (simp only: Cons)
    finally show ?thesis .
  qed
qed

lemma sub_heading_line_no_newline:
  "newline \<notin> set tag \<Longrightarrow> newline \<notin> set line \<Longrightarrow> newline \<notin> set (sub_heading_line m tag line)"
  by (auto simp: sub_heading_line_def newline_def dest: in_set_dropD)

lemma re_sub_heading_head_line:
  assumes "newline \<notin> set tag"
  shows "takeWhile (\<lambda>c. c \<noteq> newline) (re_sub_heading m tag s)
           = sub_heading_line m tag (takeWhile (\<lambda>c. c \<noteq> newline) s)"
proof -
  let ?P = "\<lambda>c. c \<noteq> newline"
  let ?l = "sub_heading_line m tag (takeWhile ?P s)"
  have "newline \<notin> set (takeWhile ?P s)" by (auto dest: set_takeWhileD)
  then have "newline \<notin> set ?l" using assms by (intro sub_heading_line_no_newline)
  then have l: "?P d" if "d \<in> set ?l" for d using that by auto
  show ?thesis
  proof (cases "dropWhile ?P s")
    case Nil
    have "re_sub_heading m tag s = ?l" by (rule re_sub_heading_last_line [OF Nil])
    then show ?thesis using l by (simp add: takeWhile_eq_all_conv)
  next
    case (Cons nl rest)
    then have "nl = newline" using hd_dropWhile [of ?P s] by auto
    with Cons have "re_sub_heading m tag s = ?l @ newline # re_sub_heading m tag rest"
      using re_sub_heading_next_line [OF Cons] by simp
    then show ?thesis using takeWhile_append2 [of ?l ?P, OF l] by simp
  qed
qed

text \<open>Two ways in which a marker stays in the output: a \<open>#\<close> that is still in the
  first line after the two heading passes, and an odd number of \<open>*\<close>.\<close>

lemma kept_marker_in_output:
  assumes "count_char c (re_sub_heading ''##'' ''h2'' (re_sub_heading ''#'' ''h1'' s)) > 0 \<and> c = CHR ''#''
        \<or> odd (count_char c (re_sub_heading ''##'' ''h2'' (re_sub_heading ''#'' ''h1'' s))) \<and> c = CHR ''*''"
  shows "c \<in> set (markdown_to_html s)"
proof -
  define a where "a = re_sub_heading ''##'' ''h2'' (re_sub_heading ''#'' ''h1'' s)"
  define b where "b = re_sub_delim ''*'' ''em'' (re_sub_delim ''**'' ''strong'' a)"
  define r where "r = replace [newline, newline] ''</p><p>'' b"
  define w where "w = ''<p>'' @ r @ ''</p>''"
  have out: "markdown_to_html s = replace ''</h2></p>'' ''</h2>'' (replace ''<p><h2>'' ''<h2>''
      (replace ''</h1></p>'' ''</h1>'' (replace ''<p><h1>'' ''<h1>'' w)))"
    by (simp only: markdown_to_html_def Let_def a_def b_def r_def w_def)
  have c: "c = CHR ''#'' \<or> c = CHR ''*''" using assms by blast
  have lit: "c \<notin> set ''<p><h1>''" "c \<notin> set ''<h1>''" "c \<notin> set ''</h1></p>''"
    "c \<notin> set ''</h1>''" "c \<notin> set ''<p><h2>''" "c \<notin> set ''<h2>''"
    "c \<notin> set ''</h2></p>''" "c \<notin> set ''</h2>''" "c \<notin> set ''</p><p>''"
    "c \<notin> set [newline, newline]" "c \<notin> set ''<p>''" "c \<notin> set ''</p>''"
    using c by (auto simp: newline_def)
  have "count_char c (markdown_to_html s) = count_char c w"
    by (simp only: out replace_count [OF lit(7,8)] replace_count [OF lit(5,6)]
          replace_count [OF lit(3,4)] replace_count [OF lit(1,2)])
  also have "\<dots> = count_char c r"
    by (simp only: w_def count_char_append count_char_notin [OF lit(11)]
          count_char_notin [OF lit(12)])
  also have "\<dots> = count_char c b"
    by (simp only: r_def replace_count [OF lit(10,9)])
  finally have bw: "count_char c (markdown_to_html s) = count_char c b" .
  have tg: "c \<notin> set (''<>/'' @ ''strong'')" "c \<notin> set (''<>/'' @ ''em'')"
    using c by auto
  have "0 < count_char c b"
  proof (cases "c = CHR ''#''")
    case True
    then have d: "c \<notin> set ''**''" "c \<notin> set ''*''" by simp_all
    have "count_char c b = count_char c a"
      by (simp only: b_def re_sub_delim_keeps [OF tg(2) d(2)] re_sub_delim_keeps [OF tg(1) d(1)])
    with assms True show ?thesis by (simp add: a_def)
  next
    case False
    with assms have "odd (count_char c a)" by (auto simp: a_def)
    then have "odd (count_char c (re_sub_delim ''**'' ''strong'' a))"
      by (rule re_sub_delim_parity [OF tg(1)])
    then have "odd (count_char c b)"
      unfolding b_def by (rule re_sub_delim_parity [OF tg(2)])
    then show ?thesis by (rule odd_pos)
  qed
  with bw have "count_char c (markdown_to_html s) \<noteq> 0" by simp
  then show ?thesis by (simp add: count_char_zero)
qed

lemma hash_in_first_line_stays:
  assumes "CHR ''#'' \<in> set (sub_heading_line ''##'' ''h2'' (sub_heading_line ''#'' ''h1''
             (takeWhile (\<lambda>c. c \<noteq> newline) s)))"
  shows "CHR ''#'' \<in> set (markdown_to_html s)"
proof -
  let ?P = "\<lambda>c. c \<noteq> newline"
  let ?a = "re_sub_heading ''##'' ''h2'' (re_sub_heading ''#'' ''h1'' s)"
  have t: "newline \<notin> set ''h1''" "newline \<notin> set ''h2''"
    by (simp_all add: newline_def)
  have "takeWhile ?P ?a = sub_heading_line ''##'' ''h2'' (sub_heading_line ''#'' ''h1'' (takeWhile ?P s))"
    by (simp only: re_sub_heading_head_line [OF t(1)] re_sub_heading_head_line [OF t(2)])
  with assms have "CHR ''#'' \<in> set (takeWhile ?P ?a)" by simp
  then have "CHR ''#'' \<in> set ?a" using set_takeWhileD by fast
  then have "0 < count_char CHR ''#'' ?a"
    using count_char_zero [of "CHR ''#''" ?a] by auto
  then show ?thesis by (intro kept_marker_in_output) simp
qed

lemma odd_stars_stay:
  assumes "odd (count_char CHR ''*'' s)"
  shows "CHR ''*'' \<in> set (markdown_to_html s)"
proof -
  have "count_char CHR ''*'' (re_sub_heading ''##'' ''h2'' (re_sub_heading ''#'' ''h1'' s))
          = count_char CHR ''*'' s"
    by (simp add: re_sub_heading_count)
  with assms show ?thesis by (intro kept_marker_in_output) simp
qed

text \<open>C7 as stated speaks of every content of the templater. A \<open>#\<close> in the title
  stays in the heading, a \<open>*\<close> in the title stays where it has no partner on its
  line, and a title that begins with a line feed leaves the heading marker itself
  unconverted (all with the second template, hash value 1).\<close>

theorem rendered_content_counterexample:
  "(case generate_structured_content (\<lambda>s. 1) csharp_book four_keywords of
      Inl e \<Rightarrow> False | Inr c \<Rightarrow> CHR ''#'' \<in> set (markdown_to_html c)) \<and>
   (case generate_structured_content (\<lambda>s. 1) star_hotel four_keywords of
      Inl e \<Rightarrow> False | Inr c \<Rightarrow> CHR ''*'' \<in> set (markdown_to_html c)) \<and>
   (case generate_structured_content (\<lambda>s. 1) broken_title four_keywords of
      Inl e \<Rightarrow> False | Inr c \<Rightarrow> CHR ''#'' \<in> set (markdown_to_html c))"
proof -
  have 1: "case generate_structured_content (\<lambda>s. 1) csharp_book four_keywords of
      Inl e \<Rightarrow> False
    | Inr c \<Rightarrow> CHR ''#'' \<in> set (sub_heading_line ''##'' ''h2'' (sub_heading_line ''#'' ''h1''
             (takeWhile (\<lambda>c. c \<noteq> newline) c)))"
    by code_simp
  have 2: "case generate_structured_content (\<lambda>s. 1) star_hotel four_keywords of
      Inl e \<Rightarrow> False | Inr c \<Rightarrow> odd (count_char CHR ''*'' c)"
    by code_simp
  have 3: "case generate_structured_content (\<lambda>s. 1) broken_title four_keywords of
      Inl e \<Rightarrow> False
    | Inr c \<Rightarrow> CHR ''#'' \<in> set (sub_heading_line ''##'' ''h2'' (sub_heading_line ''#'' ''h1''
             (takeWhile (\<lambda>c. c \<noteq> newline) c)))"
    by code_simp
  from 1 2 3 show ?thesis
    by (auto split: sum.splits intro: hash_in_first_line_stays odd_stars_stay)
qed

text \<open>An instance of C7: the first mock product with four of its keywords.\<close>

theorem rendered_content_has_no_markers_witness:
  "fields_avoid ''#*'' headphones four_keywords \<and>
   \<not> prefix [newline] (title headphones) \<and>
   \<not> prefix [newline] (four_keywords ! 0) \<and>
   fields_avoid [CHR ''<'', newline] headphones four_keywords \<and>
   (\<exists>content. generate_structured_content (\<lambda>s. 1) headphones four_keywords = Inr content \<and>
      CHR ''#'' \<notin> set (markdown_to_html content) \<and>
      CHR ''*'' \<notin> set (markdown_to_html content) \<and>
      prefix ''<h1>'' (markdown_to_html content) \<and>
      (\<exists>intro body.
         generate_intro (\<lambda>s. 1) headphones four_keywords = Inr intro \<and>
         generate_body headphones four_keywords = Inr body \<and>
         markdown_to_html content =
           ''<h1>'' @ drop 2 (generate_headline (\<lambda>s. 1) (title headphones) (four_keywords ! 0))
             @ ''</h1><p>'' @ intro @ ''</p><p>'' @ body @ ''</p><p>''
             @ generate_cta (\<lambda>s. 1) (title headphones) (four_keywords ! 0) @ ''</p>''))"
proof -
  have h1: "fields_avoid ''#*'' headphones four_keywords" by code_simp
  have h2: "\<not> prefix [newline] (title headphones)" by code_simp
  have h3: "\<not> prefix [newline] (four_keywords ! 0)" by code_simp
  have h4: "fields_avoid [CHR ''<'', newline] headphones four_keywords" by code_simp
  have "4 \<le> length four_keywords" by (simp add: four_keywords_def)
  then obtain content
    where c: "generate_structured_content (\<lambda>s. 1) headphones four_keywords = Inr content"
    using structured_content_long by blast
  from rendered_content_has_no_markers [OF c h1 h2 h3] h4 c h1 h2 h3 show ?thesis
    by blast
qed

end
